theory Spec2Isabelle
  imports Main "HOL-Library.Sublist"
begin

section \<open>Go slices and strings\<close>

text \<open>
  A Go string is a sequence of bytes and is modelled as a \<open>string\<close> (a list of
  characters); a slice of strings is a list of strings. The built-ins the sources use are
  written out: \<open>make\<close> gives a slice of zero values of the requested length, \<open>copy\<close>
  overwrites the first \<open>min (len dst) (len src)\<close> elements of the destination.
\<close>

datatype go_panic = SliceBoundsOutOfRange

definition go_make :: "nat \<Rightarrow> string list" where
  "go_make n = replicate n []"

definition go_copy :: "'a list \<Rightarrow> 'a list \<Rightarrow> 'a list" where
  "go_copy dst src =
     (let k = min (length dst) (length src) in take k src @ drop k dst)"

text \<open>\<open>s[lo:hi]\<close> on a string: a run-time panic unless \<open>0 \<le> lo \<le> hi \<le> len s\<close>.\<close>

definition go_slice :: "string \<Rightarrow> int \<Rightarrow> int \<Rightarrow> go_panic + string" where
  "go_slice s lo hi =
     (if 0 \<le> lo \<and> lo \<le> hi \<and> hi \<le> int (length s)
      then Inr (take (nat hi - nat lo) (drop (nat lo) s))
      else Inl SliceBoundsOutOfRange)"

text \<open>\<open>strings.Index\<close>: the index of the first occurrence of \<open>sub\<close> in \<open>s\<close>, or \<open>-1\<close>.\<close>

fun strings_Index :: "string \<Rightarrow> string \<Rightarrow> int" where
  "strings_Index [] sub = (if sub = [] then 0 else -1)"
| "strings_Index (c # s) sub =
     (if prefix sub (c # s) then 0
      else (let r = strings_Index s sub in if r < 0 then -1 else r + 1))"

definition strings_Contains :: "string \<Rightarrow> string \<Rightarrow> bool" where
  "strings_Contains s sub = (0 \<le> strings_Index s sub)"

definition strings_HasPrefix :: "string \<Rightarrow> string \<Rightarrow> bool" where
  "strings_HasPrefix s p = (length p \<le> length s \<and> take (length p) s = p)"

section \<open>Tags\<close>

text \<open>
  \<open>type Tags []string\<close>, the same in both packages. \<open>GetTags\<close> of rbxapidump
  (rbxapi.go) and of the rbxapijson package in its current form allocates \<open>len(tags)\<close>
  elements and copies into them.
\<close>

type_synonym Tags = "string list"

fun GetTag :: "Tags \<Rightarrow> string \<Rightarrow> bool" where
  "GetTag [] tag = False"
| "GetTag (t # ts) tag = (if t = tag then True else GetTag ts tag)"

definition GetTags :: "Tags \<Rightarrow> string list" where
  "GetTags tags = go_copy (go_make (length tags)) tags"


text \<open>
  \<open>SetTag\<close>: the appended slice is scanned with \<open>i\<close> from 1; the inner loop looks for
  an index \<open>j < i\<close> holding the same label, and when there is one the element at \<open>i\<close>
  is cut out, \<open>n\<close> decremented and the scan resumed at the same \<open>i\<close>.
\<close>

function SetTag_inner :: "Tags \<Rightarrow> nat \<Rightarrow> nat \<Rightarrow> bool" where
  "SetTag_inner tags i j =
     (if j < i then (if tags ! i = tags ! j then True else SetTag_inner tags i (Suc j))
      else False)"
  by pat_completeness auto
termination
  by (relation "measure (\<lambda>(tags, i, j). i - j)") auto

function SetTag_loop :: "nat \<Rightarrow> nat \<Rightarrow> Tags \<Rightarrow> Tags" where
  "SetTag_loop i n tags =
     (if i < n then
        (if SetTag_inner tags i 0
         then SetTag_loop i (n - 1) (take i tags @ drop (Suc i) tags)
         else SetTag_loop (Suc i) n tags)
      else tags)"
  by pat_completeness auto
termination
  by (relation "measure (\<lambda>(i, n, tags). n - i)") auto

definition SetTag :: "string list \<Rightarrow> Tags \<Rightarrow> Tags" where
  "SetTag tag tags = (let tags' = tags @ tag in SetTag_loop 1 (length tags') tags')"

text \<open>
  \<open>UnsetTag\<close>: \<open>i\<close> from 0; the inner loop runs over the arguments, and an element
  equal to one of them is cut out.
\<close>

function UnsetTag_inner :: "Tags \<Rightarrow> string list \<Rightarrow> nat \<Rightarrow> nat \<Rightarrow> bool" where
  "UnsetTag_inner tags tag i j =
     (if j < length tag
      then (if tags ! i = tag ! j then True else UnsetTag_inner tags tag i (Suc j))
      else False)"
  by pat_completeness auto
termination
  by (relation "measure (\<lambda>(tags, tag, i, j). length tag - j)") auto

function UnsetTag_loop :: "string list \<Rightarrow> nat \<Rightarrow> nat \<Rightarrow> Tags \<Rightarrow> Tags" where
  "UnsetTag_loop tag i n tags =
     (if i < n then
        (if UnsetTag_inner tags tag i 0
         then UnsetTag_loop tag i (n - 1) (take i tags @ drop (Suc i) tags)
         else UnsetTag_loop tag (Suc i) n tags)
      else tags)"
  by pat_completeness auto
termination
  by (relation "measure (\<lambda>(tag, i, n, tags). n - i)") auto

definition UnsetTag :: "string list \<Rightarrow> Tags \<Rightarrow> Tags" where
  "UnsetTag tag tags = UnsetTag_loop tag 0 (length tags) tags"

text \<open>A call of either method, and a sequence of calls on one tag set.\<close>

datatype tag_call = CallSetTag "string list" | CallUnsetTag "string list"

fun run_call :: "tag_call \<Rightarrow> Tags \<Rightarrow> Tags" where
  "run_call (CallSetTag tag) tags = SetTag tag tags"
| "run_call (CallUnsetTag tag) tags = UnsetTag tag tags"

fun run_calls :: "tag_call list \<Rightarrow> Tags \<Rightarrow> Tags" where
  "run_calls [] tags = tags"
| "run_calls (c # cs) tags = run_calls cs (run_call c tags)"

text \<open>
  What the scan of \<open>SetTag\<close> computes, as a reference for the proofs: the labels in
  order, each kept at its first occurrence.
\<close>

fun keep_first :: "Tags \<Rightarrow> Tags \<Rightarrow> Tags" where
  "keep_first seen [] = seen"
| "keep_first seen (x # xs) =
     (if x \<in> set seen then keep_first seen xs else keep_first (seen @ [x]) xs)"

section \<open>Type (rbxapidump): the packed string\<close>

text \<open>
  The generic \<open>rbxapi.Type\<close> is read only through its accessors; the record holds what
  \<open>GetCategory\<close> and \<open>GetName\<close> return.
\<close>

record rbxapi_Type =
  rT_Category :: string
  rT_Name :: string

type_synonym Type = string

definition Type_GetName :: "Type \<Rightarrow> string" where
  "Type_GetName typ =
     (let i = strings_Index typ '':'' in
      if 0 \<le> i then drop (nat (i + 1)) typ else typ)"

definition Type_GetCategory :: "Type \<Rightarrow> string" where
  "Type_GetCategory typ =
     (let i = strings_Index typ '':'' in
      if 0 \<le> i then take (nat i) typ else [])"

definition SetFromType :: "rbxapi_Type \<Rightarrow> Type" where
  "SetFromType t =
     (let cat = rT_Category t in
      if cat = [] then rT_Name t else cat @ '':'' @ rT_Name t)"

definition copyType :: "rbxapi_Type \<Rightarrow> Type" where
  "copyType typ = SetFromType typ"

section \<open>Security read from the tags (rbxapidump)\<close>

definition is_security_tag :: "string \<Rightarrow> bool" where
  "is_security_tag tag =
     (strings_Contains tag ''Security'' \<or> strings_Contains tag ''security'')"

fun getSecurity :: "Tags \<Rightarrow> string" where
  "getSecurity [] = []"
| "getSecurity (tag # tags) = (if is_security_tag tag then tag else getSecurity tags)"

definition write_prefix :: string where
  "write_prefix = ''ScriptWriteRestricted: [''"

definition write_suffix :: string where
  "write_suffix = '']''"

text \<open>
  The loop of \<open>(*Property).GetSecurity\<close> with its two results as state; a \<open>break\<close>
  returns them, and the slice expression can panic.
\<close>

fun GetSecurity_loop :: "Tags \<Rightarrow> string \<Rightarrow> string \<Rightarrow> go_panic + (string \<times> string)" where
  "GetSecurity_loop [] rd wr = Inr (rd, wr)"
| "GetSecurity_loop (tag # tags) rd wr =
     (if wr = [] \<and> strings_HasPrefix tag write_prefix then
        (case go_slice tag (int (length write_prefix))
                (int (length tag) - int (length write_suffix)) of
           Inl e \<Rightarrow> Inl e
         | Inr w \<Rightarrow> if rd \<noteq> [] then Inr (rd, w) else GetSecurity_loop tags rd w)
      else if rd = [] \<and> is_security_tag tag then
        (if wr \<noteq> [] then Inr (tag, wr) else GetSecurity_loop tags tag wr)
      else GetSecurity_loop tags rd wr)"

text \<open>
  The tags the loop leaves for the read context: a tag with the write prefix is taken
  for the write context as long as the write context is still empty, and the first one
  that gives a non-empty write context ends that.
\<close>

fun read_candidates :: "Tags \<Rightarrow> Tags" where
  "read_candidates [] = []"
| "read_candidates (tag # tags) =
     (if strings_HasPrefix tag write_prefix then
        (case go_slice tag (int (length write_prefix))
                (int (length tag) - int (length write_suffix)) of
           Inl e \<Rightarrow> []
         | Inr w \<Rightarrow> if w = [] then read_candidates tags else tags)
      else tag # read_candidates tags)"

text \<open>
  The claim's own reading of a security tag: the substring \<open>security\<close> under
  case-insensitive comparison (ASCII letters folded to lower case).
\<close>

definition ToLower :: "char \<Rightarrow> char" where
  "ToLower c =
     (let n = (of_char c :: nat) in if 65 \<le> n \<and> n \<le> 90 then char_of (n + 32) else c)"

definition spec_security_tag :: "string \<Rightarrow> bool" where
  "spec_security_tag tag = strings_Contains (map ToLower tag) ''security''"

section \<open>The entity model of rbxapidump\<close>

record Parameter =
  Parameter_Type :: Type
  Parameter_Name :: string
  Parameter_HasDefault :: bool
  Parameter_Default :: string

record Property =
  Property_Name :: string
  Property_Class :: string
  Property_ValueType :: Type
  Property_Tags :: Tags

record Function =
  Function_Name :: string
  Function_Class :: string
  Function_ReturnType :: Type
  Function_Parameters :: "Parameter list"
  Function_Tags :: Tags

record Event =
  Event_Name :: string
  Event_Class :: string
  Event_Parameters :: "Parameter list"
  Event_Tags :: Tags

record Callback =
  Callback_Name :: string
  Callback_Class :: string
  Callback_ReturnType :: Type
  Callback_Parameters :: "Parameter list"
  Callback_Tags :: Tags

text \<open>
  \<open>Class.Members\<close> holds \<open>rbxapi.Member\<close> values; the members this package builds
  are pointers to its four descriptor structs.
\<close>

datatype Member =
  MProperty Property
| MFunction Function
| MEvent Event
| MCallback Callback

record Class =
  Class_Name :: string
  Class_Superclass :: string
  Class_Members :: "Member list"
  Class_Tags :: Tags

record EnumItem =
  EnumItem_Enum :: string
  EnumItem_Name :: string
  EnumItem_Value :: int
  EnumItem_Tags :: Tags

record Enum =
  Enum_Name :: string
  Enum_Items :: "EnumItem list"
  Enum_Tags :: Tags

text \<open>
  The root owns its classes and enums: each slot of \<open>Classes\<close> and \<open>Enums\<close> is an
  object of its own (no pointer stands in two slots), so the slices are lists of values
  and a method that mutates an element returns the list with that element replaced.
\<close>

record Root =
  Classes :: "Class list"
  Enums :: "Enum list"

definition Property_GetSecurity :: "Property \<Rightarrow> go_panic + (string \<times> string)" where
  "Property_GetSecurity member = GetSecurity_loop (Property_Tags member) [] []"

definition Function_GetSecurity :: "Function \<Rightarrow> string" where
  "Function_GetSecurity member = getSecurity (Function_Tags member)"

fun Member_GetMemberType :: "Member \<Rightarrow> string" where
  "Member_GetMemberType (MProperty m) = ''Property''"
| "Member_GetMemberType (MFunction m) = ''Function''"
| "Member_GetMemberType (MEvent m) = ''Event''"
| "Member_GetMemberType (MCallback m) = ''Callback''"

fun Member_GetName :: "Member \<Rightarrow> string" where
  "Member_GetName (MProperty m) = Property_Name m"
| "Member_GetName (MFunction m) = Function_Name m"
| "Member_GetName (MEvent m) = Event_Name m"
| "Member_GetName (MCallback m) = Callback_Name m"

fun GetClass_loop :: "Class list \<Rightarrow> string \<Rightarrow> Class option" where
  "GetClass_loop [] name = None"
| "GetClass_loop (c # cs) name = (if Class_Name c = name then Some c else GetClass_loop cs name)"

definition GetClass :: "Root \<Rightarrow> string \<Rightarrow> Class option" where
  "GetClass root name = GetClass_loop (Classes root) name"

fun GetEnum_loop :: "Enum list \<Rightarrow> string \<Rightarrow> Enum option" where
  "GetEnum_loop [] name = None"
| "GetEnum_loop (e # es) name = (if Enum_Name e = name then Some e else GetEnum_loop es name)"

definition GetEnum :: "Root \<Rightarrow> string \<Rightarrow> Enum option" where
  "GetEnum root name = GetEnum_loop (Enums root) name"

fun GetMember_loop :: "Member list \<Rightarrow> string \<Rightarrow> Member option" where
  "GetMember_loop [] name = None"
| "GetMember_loop (m # ms) name =
     (if Member_GetName m = name then Some m else GetMember_loop ms name)"

definition GetMember :: "Class \<Rightarrow> string \<Rightarrow> Member option" where
  "GetMember c name = GetMember_loop (Class_Members c) name"

fun GetEnumItem_loop :: "EnumItem list \<Rightarrow> string \<Rightarrow> EnumItem option" where
  "GetEnumItem_loop [] name = None"
| "GetEnumItem_loop (i # is) name =
     (if EnumItem_Name i = name then Some i else GetEnumItem_loop is name)"

definition GetEnumItem :: "Enum \<Rightarrow> string \<Rightarrow> EnumItem option" where
  "GetEnumItem e name = GetEnumItem_loop (Enum_Items e) name"

section \<open>The generic views and the patch actions\<close>

text \<open>
  Modelled from the spec: the interfaces of package \<open>rbxapi\<close> (Class, Member, Property,
  Function, Event, Parameter, Enum, EnumItem), which the sources import and only read
  through accessors. Each record holds what the accessors of a generic value return. The
  shape of a member is the first case of the type switch in \<open>copyMember\<close> that it
  satisfies: a Property (a value type), a Function (a return type and parameters; a
  Callback has the same methods), an Event (parameters only), or none of them.
\<close>

record rbxapi_Parameter =
  rP_Type :: rbxapi_Type
  rP_Name :: string
  rP_Default :: string
  rP_HasDefault :: bool

datatype rbxapi_Shape =
  IsProperty rbxapi_Type
| IsFunction rbxapi_Type "rbxapi_Parameter list"
| IsEvent "rbxapi_Parameter list"
| IsOther

record rbxapi_Member =
  rM_MemberType :: string
  rM_Name :: string
  rM_Tags :: "string list"
  rM_Shape :: rbxapi_Shape

record rbxapi_Class =
  rC_Name :: string
  rC_Superclass :: string
  rC_Members :: "rbxapi_Member list"
  rC_Tags :: "string list"

record rbxapi_EnumItem =
  rI_Name :: string
  rI_Value :: int
  rI_Tags :: "string list"

record rbxapi_Enum =
  rE_Name :: string
  rE_Items :: "rbxapi_EnumItem list"
  rE_Tags :: "string list"

text \<open>
  Modelled from the spec: package \<open>patch\<close>, which the sources import. An action reports
  its kind (Add, Remove or Change), a field name and a next value; a class-shaped action
  exposes the target class, a member-shaped action additionally the target member, and
  likewise for enums and enum items. The next value is an \<open>interface{}\<close>; the payloads
  the handlers test for are a string, a slice of strings, an int, a generic Type and a
  generic parameter list.

  An accessor an action does not have is \<open>None\<close>; one that returns nil is
  \<open>Some None\<close>. The assertion \<open>action.(patch.Member)\<close> succeeds when the action has
  both \<open>GetClass\<close> and \<open>GetMember\<close>, \<open>action.(patch.Class)\<close> when it has
  \<open>GetClass\<close>; the enum assertions are alike.
\<close>

datatype patch_Type = Remove | Change | Add

datatype go_value =
  VString string
| VStrings "string list"
| VInt int
| VType rbxapi_Type
| VParameters "rbxapi_Parameter list"
| VOther

record Action =
  GetType :: patch_Type
  GetField :: string
  GetNext :: go_value
  Action_GetClass :: "rbxapi_Class option option"
  Action_GetMember :: "rbxapi_Member option option"
  Action_GetEnum :: "rbxapi_Enum option option"
  Action_GetEnumItem :: "rbxapi_EnumItem option option"

text \<open>
  The guards of the four branches of \<open>Patch\<close>: the type assertion holds and the
  accessors return non-nil.
\<close>

definition member_target :: "Action \<Rightarrow> (rbxapi_Class \<times> rbxapi_Member) option" where
  "member_target action =
     (case (Action_GetClass action, Action_GetMember action) of
        (Some (Some aclass), Some (Some amember)) \<Rightarrow> Some (aclass, amember)
      | _ \<Rightarrow> None)"

definition class_target :: "Action \<Rightarrow> rbxapi_Class option" where
  "class_target action =
     (case Action_GetClass action of Some (Some aclass) \<Rightarrow> Some aclass | _ \<Rightarrow> None)"

definition enumitem_target :: "Action \<Rightarrow> (rbxapi_Enum \<times> rbxapi_EnumItem) option" where
  "enumitem_target action =
     (case (Action_GetEnum action, Action_GetEnumItem action) of
        (Some (Some aenum), Some (Some aitem)) \<Rightarrow> Some (aenum, aitem)
      | _ \<Rightarrow> None)"

definition enum_target :: "Action \<Rightarrow> rbxapi_Enum option" where
  "enum_target action =
     (case Action_GetEnum action of Some (Some aenum) \<Rightarrow> Some aenum | _ \<Rightarrow> None)"

section \<open>The bridge: copies of generic values (patch.go)\<close>

definition copyParameter :: "rbxapi_Parameter \<Rightarrow> Parameter" where
  "copyParameter param =
     \<lparr>Parameter_Type = SetFromType (rP_Type param),
      Parameter_Name = rP_Name param,
      Parameter_HasDefault = rP_HasDefault param,
      Parameter_Default = rP_Default param\<rparr>"

definition copyParameters :: "rbxapi_Parameter list \<Rightarrow> Parameter list" where
  "copyParameters params = map copyParameter params"

definition copyMember :: "rbxapi_Member \<Rightarrow> Member option" where
  "copyMember member =
     (case rM_Shape member of
        IsProperty vt \<Rightarrow>
          Some (MProperty \<lparr>Property_Name = rM_Name member, Property_Class = [],
            Property_ValueType = copyType vt, Property_Tags = rM_Tags member\<rparr>)
      | IsFunction rt ps \<Rightarrow>
          (if rM_MemberType member = ''Function'' then
             Some (MFunction \<lparr>Function_Name = rM_Name member, Function_Class = [],
               Function_ReturnType = copyType rt,
               Function_Parameters = copyParameters ps, Function_Tags = rM_Tags member\<rparr>)
           else if rM_MemberType member = ''Callback'' then
             Some (MCallback \<lparr>Callback_Name = rM_Name member, Callback_Class = [],
               Callback_ReturnType = copyType rt,
               Callback_Parameters = copyParameters ps, Callback_Tags = rM_Tags member\<rparr>)
           else None)
      | IsEvent ps \<Rightarrow>
          Some (MEvent \<lparr>Event_Name = rM_Name member, Event_Class = [],
            Event_Parameters = copyParameters ps, Event_Tags = rM_Tags member\<rparr>)
      | IsOther \<Rightarrow> None)"

fun set_member_Class :: "string \<Rightarrow> Member \<Rightarrow> Member" where
  "set_member_Class name (MProperty m) = MProperty (m\<lparr>Property_Class := name\<rparr>)"
| "set_member_Class name (MFunction m) = MFunction (m\<lparr>Function_Class := name\<rparr>)"
| "set_member_Class name (MEvent m) = MEvent (m\<lparr>Event_Class := name\<rparr>)"
| "set_member_Class name (MCallback m) = MCallback (m\<lparr>Callback_Class := name\<rparr>)"

fun copyClass_loop :: "string \<Rightarrow> rbxapi_Member list \<Rightarrow> Member list" where
  "copyClass_loop name [] = []"
| "copyClass_loop name (member # members) =
     (case copyMember member of
        Some m \<Rightarrow> set_member_Class name m # copyClass_loop name members
      | None \<Rightarrow> copyClass_loop name members)"

definition copyClass :: "rbxapi_Class \<Rightarrow> Class" where
  "copyClass c =
     \<lparr>Class_Name = rC_Name c, Class_Superclass = rC_Superclass c,
      Class_Members = copyClass_loop (rC_Name c) (rC_Members c),
      Class_Tags = rC_Tags c\<rparr>"

definition copyEnumItem :: "rbxapi_EnumItem \<Rightarrow> EnumItem" where
  "copyEnumItem item =
     \<lparr>EnumItem_Enum = [], EnumItem_Name = rI_Name item,
      EnumItem_Value = rI_Value item, EnumItem_Tags = rI_Tags item\<rparr>"

definition copyEnum :: "rbxapi_Enum \<Rightarrow> Enum" where
  "copyEnum e =
     \<lparr>Enum_Name = rE_Name e,
      Enum_Items = map (\<lambda>item. (copyEnumItem item)\<lparr>EnumItem_Enum := rE_Name e\<rparr>) (rE_Items e),
      Enum_Tags = rE_Tags e\<rparr>"

section \<open>The patch engine of rbxapidump (patch.go)\<close>

text \<open>
  Each \<open>Patch\<close> method is a loop over the actions; the loop body is the \<open>_step\<close>
  function and the method folds it over the list. A \<open>continue\<close> ends the body.
\<close>

definition Property_Patch_step :: "Action \<Rightarrow> Property \<Rightarrow> Property" where
  "Property_Patch_step action member =
     (if GetType action \<noteq> Change then member
      else if GetField action = ''Name'' then
        (case GetNext action of VString v \<Rightarrow> member\<lparr>Property_Name := v\<rparr> | _ \<Rightarrow> member)
      else if GetField action = ''ValueType'' then
        (case GetNext action of
           VType v \<Rightarrow> member\<lparr>Property_ValueType := SetFromType v\<rparr>
         | VString v \<Rightarrow> member\<lparr>Property_ValueType := v\<rparr>
         | _ \<Rightarrow> member)
      else if GetField action = ''Tags'' then
        (case GetNext action of
           VStrings v \<Rightarrow> member\<lparr>Property_Tags := GetTags v\<rparr> | _ \<Rightarrow> member)
      else member)"

definition Property_Patch :: "Action list \<Rightarrow> Property \<Rightarrow> Property" where
  "Property_Patch actions member = fold Property_Patch_step actions member"

definition Function_Patch_step :: "Action \<Rightarrow> Function \<Rightarrow> Function" where
  "Function_Patch_step action member =
     (if GetType action \<noteq> Change then member
      else if GetField action = ''Name'' then
        (case GetNext action of VString v \<Rightarrow> member\<lparr>Function_Name := v\<rparr> | _ \<Rightarrow> member)
      else if GetField action = ''ReturnType'' then
        (case GetNext action of
           VType v \<Rightarrow> member\<lparr>Function_ReturnType := SetFromType v\<rparr>
         | VString v \<Rightarrow> member\<lparr>Function_ReturnType := v\<rparr>
         | _ \<Rightarrow> member)
      else if GetField action = ''Parameters'' then
        (case GetNext action of
           VParameters v \<Rightarrow> member\<lparr>Function_Parameters := copyParameters v\<rparr>
         | _ \<Rightarrow> member)
      else if GetField action = ''Tags'' then
        (case GetNext action of
           VStrings v \<Rightarrow> member\<lparr>Function_Tags := GetTags v\<rparr> | _ \<Rightarrow> member)
      else member)"

definition Function_Patch :: "Action list \<Rightarrow> Function \<Rightarrow> Function" where
  "Function_Patch actions member = fold Function_Patch_step actions member"

definition Event_Patch_step :: "Action \<Rightarrow> Event \<Rightarrow> Event" where
  "Event_Patch_step action member =
     (if GetType action \<noteq> Change then member
      else if GetField action = ''Name'' then
        (case GetNext action of VString v \<Rightarrow> member\<lparr>Event_Name := v\<rparr> | _ \<Rightarrow> member)
      else if GetField action = ''Parameters'' then
        (case GetNext action of
           VParameters v \<Rightarrow> member\<lparr>Event_Parameters := copyParameters v\<rparr>
         | _ \<Rightarrow> member)
      else if GetField action = ''Tags'' then
        (case GetNext action of
           VStrings v \<Rightarrow> member\<lparr>Event_Tags := GetTags v\<rparr> | _ \<Rightarrow> member)
      else member)"

definition Event_Patch :: "Action list \<Rightarrow> Event \<Rightarrow> Event" where
  "Event_Patch actions member = fold Event_Patch_step actions member"

definition Callback_Patch_step :: "Action \<Rightarrow> Callback \<Rightarrow> Callback" where
  "Callback_Patch_step action member =
     (if GetType action \<noteq> Change then member
      else if GetField action = ''Name'' then
        (case GetNext action of VString v \<Rightarrow> member\<lparr>Callback_Name := v\<rparr> | _ \<Rightarrow> member)
      else if GetField action = ''ReturnType'' then
        (case GetNext action of
           VType v \<Rightarrow> member\<lparr>Callback_ReturnType := SetFromType v\<rparr>
         | VString v \<Rightarrow> member\<lparr>Callback_ReturnType := v\<rparr>
         | _ \<Rightarrow> member)
      else if GetField action = ''Parameters'' then
        (case GetNext action of
           VParameters v \<Rightarrow> member\<lparr>Callback_Parameters := copyParameters v\<rparr>
         | _ \<Rightarrow> member)
      else if GetField action = ''Tags'' then
        (case GetNext action of
           VStrings v \<Rightarrow> member\<lparr>Callback_Tags := GetTags v\<rparr> | _ \<Rightarrow> member)
      else member)"

definition Callback_Patch :: "Action list \<Rightarrow> Callback \<Rightarrow> Callback" where
  "Callback_Patch actions member = fold Callback_Patch_step actions member"

text \<open>
  \<open>member.(patch.Patcher)\<close> in \<open>(*Class).Patch\<close>: each of the four descriptors has a
  \<open>Patch\<close> method, and the call goes to the one of the member's dynamic type.
\<close>

fun Member_Patch :: "Action list \<Rightarrow> Member \<Rightarrow> Member" where
  "Member_Patch actions (MProperty m) = MProperty (Property_Patch actions m)"
| "Member_Patch actions (MFunction m) = MFunction (Function_Patch actions m)"
| "Member_Patch actions (MEvent m) = MEvent (Event_Patch actions m)"
| "Member_Patch actions (MCallback m) = MCallback (Callback_Patch actions m)"

text \<open>
  The scans of \<open>(*Class).Patch\<close> over \<open>class.Members\<close>: Remove cuts out the first
  member whose \<open>GetName()\<close> is the name and stops; Change patches the first member whose
  name and \<open>GetMemberType()\<close> both agree and stops.
\<close>

fun remove_member_loop :: "string \<Rightarrow> Member list \<Rightarrow> Member list" where
  "remove_member_loop name [] = []"
| "remove_member_loop name (member # members) =
     (if Member_GetName member = name then members
      else member # remove_member_loop name members)"

fun change_member_loop :: "string \<Rightarrow> string \<Rightarrow> Action \<Rightarrow> Member list \<Rightarrow> Member list" where
  "change_member_loop name mtype action [] = []"
| "change_member_loop name mtype action (member # members) =
     (if Member_GetName member = name \<and> Member_GetMemberType member = mtype
      then Member_Patch [action] member # members
      else member # change_member_loop name mtype action members)"

definition Class_Patch_step :: "Action \<Rightarrow> Class \<Rightarrow> Class" where
  "Class_Patch_step action c =
     (case member_target action of
        Some (aclass, amember) \<Rightarrow>
          (case GetType action of
             Remove \<Rightarrow>
               c\<lparr>Class_Members := remove_member_loop (rM_Name amember) (Class_Members c)\<rparr>
           | Add \<Rightarrow>
               (case copyMember amember of
                  Some member \<Rightarrow> c\<lparr>Class_Members := Class_Members c @ [member]\<rparr>
                | None \<Rightarrow> c)
           | Change \<Rightarrow>
               c\<lparr>Class_Members :=
                 change_member_loop (rM_Name amember) (rM_MemberType amember) action
                   (Class_Members c)\<rparr>)
      | None \<Rightarrow>
          (case class_target action of
             Some aclass \<Rightarrow>
               (if GetType action \<noteq> Change then c
                else if GetField action = ''Name'' then
                  (case GetNext action of VString v \<Rightarrow> c\<lparr>Class_Name := v\<rparr> | _ \<Rightarrow> c)
                else if GetField action = ''Superclass'' then
                  (case GetNext action of VString v \<Rightarrow> c\<lparr>Class_Superclass := v\<rparr> | _ \<Rightarrow> c)
                else if GetField action = ''Tags'' then
                  (case GetNext action of VStrings v \<Rightarrow> c\<lparr>Class_Tags := GetTags v\<rparr> | _ \<Rightarrow> c)
                else c)
           | None \<Rightarrow> c))"

definition Class_Patch :: "Action list \<Rightarrow> Class \<Rightarrow> Class" where
  "Class_Patch actions c = fold Class_Patch_step actions c"

definition EnumItem_Patch_step :: "Action \<Rightarrow> EnumItem \<Rightarrow> EnumItem" where
  "EnumItem_Patch_step action item =
     (if GetType action \<noteq> Change then item
      else if GetField action = ''Name'' then
        (case GetNext action of VString v \<Rightarrow> item\<lparr>EnumItem_Name := v\<rparr> | _ \<Rightarrow> item)
      else if GetField action = ''Value'' then
        (case GetNext action of VInt v \<Rightarrow> item\<lparr>EnumItem_Value := v\<rparr> | _ \<Rightarrow> item)
      else if GetField action = ''Tags'' then
        (case GetNext action of VStrings v \<Rightarrow> item\<lparr>EnumItem_Tags := GetTags v\<rparr> | _ \<Rightarrow> item)
      else item)"

definition EnumItem_Patch :: "Action list \<Rightarrow> EnumItem \<Rightarrow> EnumItem" where
  "EnumItem_Patch actions item = fold EnumItem_Patch_step actions item"

fun remove_item_loop :: "string \<Rightarrow> EnumItem list \<Rightarrow> EnumItem list" where
  "remove_item_loop name [] = []"
| "remove_item_loop name (item # items) =
     (if EnumItem_Name item = name then items else item # remove_item_loop name items)"

fun change_item_loop :: "string \<Rightarrow> Action \<Rightarrow> EnumItem list \<Rightarrow> EnumItem list" where
  "change_item_loop name action [] = []"
| "change_item_loop name action (item # items) =
     (if EnumItem_Name item = name then EnumItem_Patch [action] item # items
      else item # change_item_loop name action items)"

definition Enum_Patch_step :: "Action \<Rightarrow> Enum \<Rightarrow> Enum" where
  "Enum_Patch_step action e =
     (case enumitem_target action of
        Some (aenum, aitem) \<Rightarrow>
          (case GetType action of
             Remove \<Rightarrow> e\<lparr>Enum_Items := remove_item_loop (rI_Name aitem) (Enum_Items e)\<rparr>
           | Add \<Rightarrow> e\<lparr>Enum_Items := Enum_Items e @ [copyEnumItem aitem]\<rparr>
           | Change \<Rightarrow> e\<lparr>Enum_Items := change_item_loop (rI_Name aitem) action (Enum_Items e)\<rparr>)
      | None \<Rightarrow>
          (case enum_target action of
             Some aenum \<Rightarrow>
               (if GetType action \<noteq> Change then e
                else if GetField action = ''Name'' then
                  (case GetNext action of VString v \<Rightarrow> e\<lparr>Enum_Name := v\<rparr> | _ \<Rightarrow> e)
                else if GetField action = ''Tags'' then
                  (case GetNext action of VStrings v \<Rightarrow> e\<lparr>Enum_Tags := GetTags v\<rparr> | _ \<Rightarrow> e)
                else e)
           | None \<Rightarrow> e))"

definition Enum_Patch :: "Action list \<Rightarrow> Enum \<Rightarrow> Enum" where
  "Enum_Patch actions e = fold Enum_Patch_step actions e"

text \<open>
  The scans of \<open>(*Root).Patch\<close> over \<open>root.Classes\<close> and \<open>root.Enums\<close>: the first
  element of the name is removed, or is handed the action, and the scan stops.
\<close>

fun remove_class_loop :: "string \<Rightarrow> Class list \<Rightarrow> Class list" where
  "remove_class_loop name [] = []"
| "remove_class_loop name (c # cs) =
     (if Class_Name c = name then cs else c # remove_class_loop name cs)"

fun patch_class_loop :: "string \<Rightarrow> Action \<Rightarrow> Class list \<Rightarrow> Class list" where
  "patch_class_loop name action [] = []"
| "patch_class_loop name action (c # cs) =
     (if Class_Name c = name then Class_Patch [action] c # cs
      else c # patch_class_loop name action cs)"

fun remove_enum_loop :: "string \<Rightarrow> Enum list \<Rightarrow> Enum list" where
  "remove_enum_loop name [] = []"
| "remove_enum_loop name (e # es) =
     (if Enum_Name e = name then es else e # remove_enum_loop name es)"

fun patch_enum_loop :: "string \<Rightarrow> Action \<Rightarrow> Enum list \<Rightarrow> Enum list" where
  "patch_enum_loop name action [] = []"
| "patch_enum_loop name action (e # es) =
     (if Enum_Name e = name then Enum_Patch [action] e # es
      else e # patch_enum_loop name action es)"

definition Root_Patch_step :: "Action \<Rightarrow> Root \<Rightarrow> Root" where
  "Root_Patch_step action root =
     (case member_target action of
        Some (aclass, amember) \<Rightarrow>
          root\<lparr>Classes := patch_class_loop (rC_Name aclass) action (Classes root)\<rparr>
      | None \<Rightarrow>
     (case class_target action of
        Some aclass \<Rightarrow>
          (case GetType action of
             Remove \<Rightarrow> root\<lparr>Classes := remove_class_loop (rC_Name aclass) (Classes root)\<rparr>
           | Add \<Rightarrow> root\<lparr>Classes := Classes root @ [copyClass aclass]\<rparr>
           | Change \<Rightarrow>
               root\<lparr>Classes := patch_class_loop (rC_Name aclass) action (Classes root)\<rparr>)
      | None \<Rightarrow>
     (case enumitem_target action of
        Some (aenum, aitem) \<Rightarrow>
          root\<lparr>Enums := patch_enum_loop (rE_Name aenum) action (Enums root)\<rparr>
      | None \<Rightarrow>
     (case enum_target action of
        Some aenum \<Rightarrow>
          (case GetType action of
             Remove \<Rightarrow> root\<lparr>Enums := remove_enum_loop (rE_Name aenum) (Enums root)\<rparr>
           | Add \<Rightarrow> root\<lparr>Enums := Enums root @ [copyEnum aenum]\<rparr>
           | Change \<Rightarrow> root\<lparr>Enums := patch_enum_loop (rE_Name aenum) action (Enums root)\<rparr>)
      | None \<Rightarrow> root))))"

definition Root_Patch :: "Action list \<Rightarrow> Root \<Rightarrow> Root" where
  "Root_Patch actions root = fold Root_Patch_step actions root"

text \<open>
  The key of a member in a class is its name and its kind together: two members of
  different kinds may share a name. The lookup applies the test of the Change scan of
  \<open>(*Class).Patch\<close>, \<open>member.GetName() == name && member.GetMemberType() == mtype\<close>.
\<close>

fun GetMemberOfKind_loop :: "Member list \<Rightarrow> string \<Rightarrow> string \<Rightarrow> Member option" where
  "GetMemberOfKind_loop [] name mtype = None"
| "GetMemberOfKind_loop (m # ms) name mtype =
     (if Member_GetName m = name \<and> Member_GetMemberType m = mtype then Some m
      else GetMemberOfKind_loop ms name mtype)"

definition GetMemberOfKind :: "Class \<Rightarrow> string \<Rightarrow> string \<Rightarrow> Member option" where
  "GetMemberOfKind c name mtype = GetMemberOfKind_loop (Class_Members c) name mtype"

text \<open>
  The named target of an action is absent from a root: for a member action, the class is
  not found by \<open>GetClass\<close> or it holds no member of the action's member name and kind;
  for a class action the class is not found; and the same for enum items (whose key is
  the name) and enums. An action that names no target has none to be absent.
\<close>

definition target_absent :: "Root \<Rightarrow> Action \<Rightarrow> bool" where
  "target_absent root action =
     (case member_target action of
        Some (aclass, amember) \<Rightarrow>
          (case GetClass root (rC_Name aclass) of
             None \<Rightarrow> True
           | Some c \<Rightarrow> GetMemberOfKind c (rM_Name amember) (rM_MemberType amember) = None)
      | None \<Rightarrow>
     (case class_target action of
        Some aclass \<Rightarrow> GetClass root (rC_Name aclass) = None
      | None \<Rightarrow>
     (case enumitem_target action of
        Some (aenum, aitem) \<Rightarrow>
          (case GetEnum root (rE_Name aenum) of
             None \<Rightarrow> True
           | Some e \<Rightarrow> GetEnumItem e (rI_Name aitem) = None)
      | None \<Rightarrow>
     (case enum_target action of
        Some aenum \<Rightarrow> GetEnum root (rE_Name aenum) = None
      | None \<Rightarrow> False))))"

section \<open>The class bridge in the spec's words\<close>

text \<open>
  The spec's description of the bridge, written on its own for comparison with
  \<open>copyClass\<close>. The string form of a type is the name if there is no category, else
  category, colon, name. A parameter keeps its name and its default (presence and
  payload). A source behaving as a Property becomes a Property; a function-shaped source
  becomes a Function or a Callback by its kind tag; a source behaving as an Event becomes
  an Event; any other source converts to nothing. The class bridge copies name,
  superclass and tags, converts every member, marks each result with the owning class
  name, and skips the members that do not convert.
\<close>

definition spec_type_string :: "rbxapi_Type \<Rightarrow> string" where
  "spec_type_string t =
     (if rT_Category t = [] then rT_Name t else rT_Category t @ '':'' @ rT_Name t)"

definition spec_bridge_parameter :: "rbxapi_Parameter \<Rightarrow> Parameter" where
  "spec_bridge_parameter p =
     \<lparr>Parameter_Type = spec_type_string (rP_Type p), Parameter_Name = rP_Name p,
      Parameter_HasDefault = rP_HasDefault p, Parameter_Default = rP_Default p\<rparr>"

fun spec_bridge_member :: "string \<Rightarrow> rbxapi_Member \<Rightarrow> rbxapi_Shape \<Rightarrow> Member list" where
  "spec_bridge_member owner m (IsProperty vt) =
     [MProperty \<lparr>Property_Name = rM_Name m, Property_Class = owner,
        Property_ValueType = spec_type_string vt, Property_Tags = rM_Tags m\<rparr>]"
| "spec_bridge_member owner m (IsFunction rt ps) =
     (if rM_MemberType m = ''Function'' then
        [MFunction \<lparr>Function_Name = rM_Name m, Function_Class = owner,
           Function_ReturnType = spec_type_string rt,
           Function_Parameters = map spec_bridge_parameter ps, Function_Tags = rM_Tags m\<rparr>]
      else if rM_MemberType m = ''Callback'' then
        [MCallback \<lparr>Callback_Name = rM_Name m, Callback_Class = owner,
           Callback_ReturnType = spec_type_string rt,
           Callback_Parameters = map spec_bridge_parameter ps, Callback_Tags = rM_Tags m\<rparr>]
      else [])"
| "spec_bridge_member owner m (IsEvent ps) =
     [MEvent \<lparr>Event_Name = rM_Name m, Event_Class = owner,
        Event_Parameters = map spec_bridge_parameter ps, Event_Tags = rM_Tags m\<rparr>]"
| "spec_bridge_member owner m IsOther = []"

definition spec_bridge_class :: "rbxapi_Class \<Rightarrow> Class" where
  "spec_bridge_class c =
     \<lparr>Class_Name = rC_Name c, Class_Superclass = rC_Superclass c,
      Class_Members =
        concat (map (\<lambda>m. spec_bridge_member (rC_Name c) m (rM_Shape m)) (rC_Members c)),
      Class_Tags = rC_Tags c\<rparr>"

section \<open>Example values\<close>

text \<open>
  Concrete generic views, actions and entities at which the theorems are instantiated:
  a class view without members or tags, a Property view, a class action and a member
  action (whose \<open>GetMember()\<close> may return nil), a root whose class list holds the
  name \<open>Part\<close> twice, a root whose class \<open>Part\<close> holds only the Function
  \<open>Touched\<close>, and a view of a class \<open>Tool\<close> with a tag and five members: a Property,
  a Callback, an Event, a function-shaped member of an unknown kind and a member of no
  known shape.
\<close>

definition view_Class :: "string \<Rightarrow> string \<Rightarrow> rbxapi_Class" where
  "view_Class name super =
     \<lparr>rC_Name = name, rC_Superclass = super, rC_Members = [], rC_Tags = []\<rparr>"

definition view_Property :: "string \<Rightarrow> string \<Rightarrow> rbxapi_Member" where
  "view_Property name typ =
     \<lparr>rM_MemberType = ''Property'', rM_Name = name, rM_Tags = [],
      rM_Shape = IsProperty \<lparr>rT_Category = [], rT_Name = typ\<rparr>\<rparr>"

definition class_action :: "patch_Type \<Rightarrow> rbxapi_Class \<Rightarrow> string \<Rightarrow> go_value \<Rightarrow> Action" where
  "class_action ty aclass field next =
     \<lparr>GetType = ty, GetField = field, GetNext = next,
      Action_GetClass = Some (Some aclass), Action_GetMember = None,
      Action_GetEnum = None, Action_GetEnumItem = None\<rparr>"

definition member_action ::
  "patch_Type \<Rightarrow> rbxapi_Class \<Rightarrow> rbxapi_Member option \<Rightarrow> string \<Rightarrow> go_value \<Rightarrow> Action" where
  "member_action ty aclass amember field next =
     \<lparr>GetType = ty, GetField = field, GetNext = next,
      Action_GetClass = Some (Some aclass), Action_GetMember = Some amember,
      Action_GetEnum = None, Action_GetEnumItem = None\<rparr>"

definition ex_Property :: "string \<Rightarrow> string \<Rightarrow> string \<Rightarrow> Member" where
  "ex_Property cls name typ =
     MProperty \<lparr>Property_Name = name, Property_Class = cls, Property_ValueType = typ,
       Property_Tags = []\<rparr>"

definition ex_Function :: "string \<Rightarrow> string \<Rightarrow> string \<Rightarrow> Member" where
  "ex_Function cls name typ =
     MFunction \<lparr>Function_Name = name, Function_Class = cls, Function_ReturnType = typ,
       Function_Parameters = [], Function_Tags = []\<rparr>"

definition ex_Class :: "string \<Rightarrow> string \<Rightarrow> Member list \<Rightarrow> Class" where
  "ex_Class name super members =
     \<lparr>Class_Name = name, Class_Superclass = super, Class_Members = members, Class_Tags = []\<rparr>"

definition ex_Root :: Root where
  "ex_Root =
     \<lparr>Classes = [ex_Class ''Instance'' [] [ex_Property ''Instance'' ''Name'' ''string''],
                 ex_Class ''Part'' ''Instance'' [],
                 ex_Class ''Model'' ''Instance'' [],
                 ex_Class ''Part'' ''PVInstance'' []],
      Enums = []\<rparr>"

definition ex_Root_Touched :: Root where
  "ex_Root_Touched =
     \<lparr>Classes = [ex_Class ''Part'' ''Instance'' [ex_Function ''Part'' ''Touched'' ''void'']],
      Enums = []\<rparr>"

definition view_Tool :: rbxapi_Class where
  "view_Tool =
     \<lparr>rC_Name = ''Tool'', rC_Superclass = ''Instance'',
      rC_Members =
        [view_Property ''Grip'' ''CFrame'',
         \<lparr>rM_MemberType = ''Callback'', rM_Name = ''OnUse'', rM_Tags = [''noyield''],
           rM_Shape = IsFunction \<lparr>rT_Category = [], rT_Name = ''void''\<rparr>
             [\<lparr>rP_Type = \<lparr>rT_Category = ''Class'', rT_Name = ''Player''\<rparr>,
               rP_Name = ''user'', rP_Default = ''nil'', rP_HasDefault = True\<rparr>]\<rparr>,
         \<lparr>rM_MemberType = ''Event'', rM_Name = ''Equipped'', rM_Tags = [],
           rM_Shape = IsEvent []\<rparr>,
         \<lparr>rM_MemberType = ''YieldFunction'', rM_Name = ''Wait'', rM_Tags = [],
           rM_Shape = IsFunction \<lparr>rT_Category = [], rT_Name = ''void''\<rparr> []\<rparr>,
         \<lparr>rM_MemberType = ''Constant'', rM_Name = ''Max'', rM_Tags = [],
           rM_Shape = IsOther\<rparr>],
      rC_Tags = [''Deprecated'']\<rparr>"

lemmas ex_defs = view_Class_def view_Property_def class_action_def member_action_def
  ex_Property_def ex_Function_def ex_Class_def ex_Root_def ex_Root_Touched_def

section \<open>Tags: what the scans compute\<close>

text \<open>
  The defining equations of the four loops are unfolded by hand in the proofs below, one
  iteration at a time.
\<close>

declare SetTag_inner.simps [simp del] SetTag_loop.simps [simp del]
  UnsetTag_inner.simps [simp del] UnsetTag_loop.simps [simp del]

lemma SetTag_inner_iff:
  "SetTag_inner tags i j = (\<exists>k. j \<le> k \<and> k < i \<and> tags ! i = tags ! k)"
proof (induction tags i j rule: SetTag_inner.induct)
  case (1 tags i j)
  show ?case
  proof (cases "j < i")
    case False
    then show ?thesis by (subst SetTag_inner.simps) auto
  next
    case True
    show ?thesis
    proof (cases "tags ! i = tags ! j")
      case True
      with \<open>j < i\<close> show ?thesis by (subst SetTag_inner.simps) auto
    next
      case False
      have "SetTag_inner tags i j = SetTag_inner tags i (Suc j)"
        using \<open>j < i\<close> False by (subst SetTag_inner.simps) simp
      also have "\<dots> = (\<exists>k. Suc j \<le> k \<and> k < i \<and> tags ! i = tags ! k)"
        using "1.IH" \<open>j < i\<close> False by simp
      also have "\<dots> = (\<exists>k. j \<le> k \<and> k < i \<and> tags ! i = tags ! k)"
        using False by (metis Suc_leD Suc_leI le_neq_implies_less)
      finally show ?thesis .
    qed
  qed
qed

lemma SetTag_inner_0:
  assumes "i < length tags"
  shows "SetTag_inner tags i 0 = (tags ! i \<in> set (take i tags))"
proof -
  have "(tags ! i \<in> set (take i tags)) = (\<exists>k<i. tags ! i = tags ! k)"
    using assms by (auto simp: in_set_conv_nth)
  then show ?thesis by (simp add: SetTag_inner_iff)
qed

lemma SetTag_loop_keep_first:
  "n = length tags \<Longrightarrow> i \<le> n \<Longrightarrow>
   SetTag_loop i n tags = keep_first (take i tags) (drop i tags)"
proof (induction i n tags rule: SetTag_loop.induct)
  case (1 i n tags)
  show ?case
  proof (cases "i < n")
    case False
    with "1.prems" show ?thesis by (subst SetTag_loop.simps) simp
  next
    case True
    then have il: "i < length tags" using "1.prems" by simp
    have dr: "drop i tags = tags ! i # drop (Suc i) tags"
      using il by (simp add: Cons_nth_drop_Suc)
    show ?thesis
    proof (cases "SetTag_inner tags i 0")
      case True
      let ?t = "take i tags @ drop (Suc i) tags"
      have len: "n - 1 = length ?t" using il "1.prems" by simp
      have "SetTag_loop i n tags = SetTag_loop i (n - 1) ?t"
        using \<open>i < n\<close> True by (subst SetTag_loop.simps) simp
      also have "\<dots> = keep_first (take i ?t) (drop i ?t)"
        using "1.IH"(1)[OF \<open>i < n\<close> True len] il "1.prems" by simp
      also have "\<dots> = keep_first (take i tags) (drop (Suc i) tags)"
        using il by simp
      also have "\<dots> = keep_first (take i tags) (drop i tags)"
        using True il by (simp add: dr SetTag_inner_0)
      finally show ?thesis .
    next
      case False
      have "SetTag_loop i n tags = SetTag_loop (Suc i) n tags"
        using \<open>i < n\<close> False by (subst SetTag_loop.simps) simp
      also have "\<dots> = keep_first (take (Suc i) tags) (drop (Suc i) tags)"
        using "1.IH"(2)[OF \<open>i < n\<close> False] "1.prems" \<open>i < n\<close> by simp
      also have "\<dots> = keep_first (take i tags) (drop i tags)"
        using False il by (simp add: dr SetTag_inner_0 take_Suc_conv_app_nth)
      finally show ?thesis .
    qed
  qed
qed

lemma SetTag_keep_first: "SetTag tag tags = keep_first [] (tags @ tag)"
proof (cases "tags @ tag")
  case Nil
  then show ?thesis by (simp add: SetTag_def Let_def SetTag_loop.simps[of "Suc 0" 0])
next
  case (Cons x xs)
  then show ?thesis
    using SetTag_loop_keep_first[of "length (tags @ tag)" "tags @ tag" 1]
    by (simp add: SetTag_def Let_def)
qed

lemma distinct_keep_first: "distinct seen \<Longrightarrow> distinct (keep_first seen xs)"
  by (induction xs arbitrary: seen) auto

lemma set_keep_first: "set (keep_first seen xs) = set seen \<union> set xs"
  by (induction xs arbitrary: seen) auto

lemma keep_first_append: "keep_first seen (xs @ ys) = keep_first (keep_first seen xs) ys"
  by (induction xs arbitrary: seen) auto

lemma keep_first_prefix: "prefix seen (keep_first seen xs)"
proof (induction xs arbitrary: seen)
  case Nil
  then show ?case by simp
next
  case (Cons x xs)
  show ?case
  proof (cases "x \<in> set seen")
    case True
    then show ?thesis using Cons.IH[of seen] by simp
  next
    case False
    then show ?thesis using Cons.IH[of "seen @ [x]"] by (auto dest: append_prefixD)
  qed
qed

lemma length_keep_first: "length (keep_first seen xs) \<le> length seen + length xs"
proof (induction xs arbitrary: seen)
  case Nil
  then show ?case by simp
next
  case (Cons x xs)
  show ?case
    using Cons.IH[of seen] Cons.IH[of "seen @ [x]"] by auto
qed

lemma keep_first_distinct_id: "distinct (seen @ xs) \<Longrightarrow> keep_first seen xs = seen @ xs"
  by (induction xs arbitrary: seen) auto

lemma UnsetTag_inner_iff:
  "UnsetTag_inner tags tag i j = (\<exists>k. j \<le> k \<and> k < length tag \<and> tags ! i = tag ! k)"
proof (induction tags tag i j rule: UnsetTag_inner.induct)
  case (1 tags tag i j)
  show ?case
  proof (cases "j < length tag")
    case False
    then show ?thesis by (subst UnsetTag_inner.simps) auto
  next
    case True
    show ?thesis
    proof (cases "tags ! i = tag ! j")
      case True
      with \<open>j < length tag\<close> show ?thesis by (subst UnsetTag_inner.simps) auto
    next
      case False
      have "UnsetTag_inner tags tag i j = UnsetTag_inner tags tag i (Suc j)"
        using \<open>j < length tag\<close> False by (subst UnsetTag_inner.simps) simp
      also have "\<dots> = (\<exists>k. Suc j \<le> k \<and> k < length tag \<and> tags ! i = tag ! k)"
        using "1.IH" \<open>j < length tag\<close> False by simp
      also have "\<dots> = (\<exists>k. j \<le> k \<and> k < length tag \<and> tags ! i = tag ! k)"
        using False by (metis Suc_leD Suc_leI le_neq_implies_less)
      finally show ?thesis .
    qed
  qed
qed

lemma UnsetTag_inner_0: "UnsetTag_inner tags tag i 0 = (tags ! i \<in> set tag)"
  by (auto simp: UnsetTag_inner_iff in_set_conv_nth)

lemma UnsetTag_loop_filter:
  "n = length tags \<Longrightarrow> i \<le> n \<Longrightarrow>
   UnsetTag_loop tag i n tags = take i tags @ filter (\<lambda>t. t \<notin> set tag) (drop i tags)"
proof (induction tag i n tags rule: UnsetTag_loop.induct)
  case (1 tag i n tags)
  show ?case
  proof (cases "i < n")
    case False
    with "1.prems" show ?thesis by (subst UnsetTag_loop.simps) simp
  next
    case True
    then have il: "i < length tags" using "1.prems" by simp
    have dr: "drop i tags = tags ! i # drop (Suc i) tags"
      using il by (simp add: Cons_nth_drop_Suc)
    show ?thesis
    proof (cases "UnsetTag_inner tags tag i 0")
      case True
      let ?t = "take i tags @ drop (Suc i) tags"
      have len: "n - 1 = length ?t" using il "1.prems" by simp
      have "UnsetTag_loop tag i n tags = UnsetTag_loop tag i (n - 1) ?t"
        using \<open>i < n\<close> True by (subst UnsetTag_loop.simps) simp
      also have "\<dots> = take i ?t @ filter (\<lambda>t. t \<notin> set tag) (drop i ?t)"
        using "1.IH"(1)[OF \<open>i < n\<close> True len] il "1.prems" by simp
      also have "\<dots> = take i tags @ filter (\<lambda>t. t \<notin> set tag) (drop (Suc i) tags)"
        using il by simp
      also have "\<dots> = take i tags @ filter (\<lambda>t. t \<notin> set tag) (drop i tags)"
        using True by (simp add: dr UnsetTag_inner_0)
      finally show ?thesis .
    next
      case False
      have "UnsetTag_loop tag i n tags = UnsetTag_loop tag (Suc i) n tags"
        using \<open>i < n\<close> False by (subst UnsetTag_loop.simps) simp
      also have "\<dots> = take (Suc i) tags @ filter (\<lambda>t. t \<notin> set tag) (drop (Suc i) tags)"
        using "1.IH"(2)[OF \<open>i < n\<close> False] "1.prems" \<open>i < n\<close> by simp
      also have "\<dots> = take i tags @ filter (\<lambda>t. t \<notin> set tag) (drop i tags)"
        using False il by (simp add: dr UnsetTag_inner_0 take_Suc_conv_app_nth)
      finally show ?thesis .
    qed
  qed
qed

lemma UnsetTag_filter: "UnsetTag tag tags = filter (\<lambda>t. t \<notin> set tag) tags"
  using UnsetTag_loop_filter[of "length tags" tags 0 tag] by (simp add: UnsetTag_def)

lemma distinct_SetTag: "distinct (SetTag tag tags)"
  by (simp add: SetTag_keep_first distinct_keep_first)

lemma distinct_UnsetTag: "distinct tags \<Longrightarrow> distinct (UnsetTag tag tags)"
  by (simp add: UnsetTag_filter)

lemma distinct_run_call: "distinct tags \<Longrightarrow> distinct (run_call c tags)"
  by (cases c) (simp_all add: distinct_SetTag distinct_UnsetTag)

lemma distinct_run_calls: "distinct tags \<Longrightarrow> distinct (run_calls cs tags)"
  by (induction cs arbitrary: tags) (simp_all add: distinct_run_call)


section \<open>Tags: the claims\<close>

lemma GetTags_id: "GetTags tags = tags"
  by (simp add: GetTags_def go_copy_def go_make_def)

lemma count_list_distinct: "distinct xs \<Longrightarrow> x \<in> set xs \<Longrightarrow> count_list xs x = 1"
  by (induction xs) auto

lemma keep_first_mem: "L \<in> set seen \<Longrightarrow> keep_first seen [L] = seen"
  by simp

lemma SetTag_present: "L \<in> set tags \<Longrightarrow> SetTag [L] tags = keep_first [] tags"
  by (simp add: SetTag_keep_first keep_first_append set_keep_first)

lemma takeWhile_upto:
  "L \<notin> set pre \<Longrightarrow> takeWhile (\<lambda>t. t \<noteq> L) (pre @ L # rest) = pre"
  by (induction pre) auto

lemma takeWhile_keep_first:
  assumes "L \<in> set tags"
  shows "takeWhile (\<lambda>t. t \<noteq> L) (keep_first [] tags) = keep_first [] (takeWhile (\<lambda>t. t \<noteq> L) tags)"
proof -
  obtain pre rest where sp: "tags = pre @ L # rest" and nin: "L \<notin> set pre"
    using assms by (auto dest: split_list_first)
  have tw: "takeWhile (\<lambda>t. t \<noteq> L) tags = pre"
    unfolding sp using nin by (rule takeWhile_upto)
  let ?A = "keep_first [] pre"
  have ninA: "L \<notin> set ?A" using nin by (simp add: set_keep_first)
  have "keep_first [] tags = keep_first (?A @ [L]) rest"
    using ninA by (simp add: sp keep_first_append)
  moreover obtain zs where "keep_first (?A @ [L]) rest = (?A @ [L]) @ zs"
    using keep_first_prefix[of "?A @ [L]" rest] by (auto simp: prefix_def)
  ultimately have "keep_first [] tags = ?A @ L # zs" by simp
  then have "takeWhile (\<lambda>t. t \<noteq> L) (keep_first [] tags) = ?A"
    using takeWhile_upto[OF ninA, of zs] by simp
  then show ?thesis by (simp add: tw)
qed

text \<open>
  Claim C3, as amended. When the tag set already contains the label \<open>L\<close>, \<open>SetTag(L)\<close>
  leaves \<open>L\<close> occurring exactly once and does not grow the set, but \<open>L\<close> is not moved to
  the end: the scan cuts out the later of two equal labels, so \<open>L\<close> stays where its first
  occurrence was (the labels before it are the labels that stood before its first
  occurrence, deduplicated), and a set without duplicates is left as it was.
\<close>

theorem SetTag_present_keeps_place:
  assumes "L \<in> set tags"
  shows "count_list (SetTag [L] tags) L = 1
    \<and> length (SetTag [L] tags) \<le> length tags
    \<and> takeWhile (\<lambda>t. t \<noteq> L) (SetTag [L] tags) = SetTag [] (takeWhile (\<lambda>t. t \<noteq> L) tags)
    \<and> (distinct tags \<longrightarrow> SetTag [L] tags = tags)"
proof -
  have eq: "SetTag [L] tags = keep_first [] tags"
    using assms by (rule SetTag_present)
  have "L \<in> set (keep_first [] tags)" using assms by (simp add: set_keep_first)
  then have c1: "count_list (SetTag [L] tags) L = 1"
    by (simp add: eq count_list_distinct distinct_keep_first)
  have c2: "length (SetTag [L] tags) \<le> length tags"
    using length_keep_first[of "[]" tags] by (simp add: eq)
  have c3: "takeWhile (\<lambda>t. t \<noteq> L) (SetTag [L] tags) = SetTag [] (takeWhile (\<lambda>t. t \<noteq> L) tags)"
    using takeWhile_keep_first[OF assms] unfolding eq by (simp add: SetTag_keep_first)
  have c4: "distinct tags \<longrightarrow> SetTag [L] tags = tags"
    using keep_first_distinct_id[of "[]" tags] by (simp add: eq)
  from c1 c2 c3 c4 show ?thesis by simp
qed

theorem SetTag_present_keeps_place_witness:
  "''b'' \<in> set [''b'', ''a'', ''c'']
   \<and> count_list (SetTag [''b''] [''b'', ''a'', ''c'']) ''b'' = 1
   \<and> length (SetTag [''b''] [''b'', ''a'', ''c'']) \<le> length [''b'', ''a'', ''c'']
   \<and> distinct [''b'', ''a'', ''c'']
   \<and> SetTag [''b''] [''b'', ''a'', ''c''] = [''b'', ''a'', ''c'']"
  using SetTag_present_keeps_place[of "''b''" "[''b'', ''a'', ''c'']"] by simp

text \<open>
  Claim C3 as stated fails: in \<open>[b, a]\<close> the label \<open>b\<close> is present, and after
  \<open>SetTag(b)\<close> the last label is still \<open>a\<close>.
\<close>

theorem SetTag_present_not_moved_to_end:
  "''b'' \<in> set [''b'', ''a'']
   \<and> SetTag [''b''] [''b'', ''a''] = [''b'', ''a'']
   \<and> last (SetTag [''b''] [''b'', ''a'']) \<noteq> ''b''"
  by (simp add: SetTag_keep_first)

text \<open>
  Claim C8. From a tag set without duplicate labels, every finite sequence of \<open>SetTag\<close>
  and \<open>UnsetTag\<close> calls, with any arguments, ends in a tag set without duplicate
  labels; and one \<open>SetTag\<close> call gives a tag set without duplicates from any state.
\<close>

theorem tag_calls_keep_distinct:
  assumes "distinct tags"
  shows "distinct (run_calls calls tags) \<and> distinct (SetTag tag any_tags)"
  using assms by (simp add: distinct_run_calls distinct_SetTag)

theorem tag_calls_keep_distinct_witness:
  "distinct [''a'', ''b'']
   \<and> distinct (run_calls [CallSetTag [''b'', ''c'', ''c''], CallUnsetTag [''a'', ''x''],
        CallSetTag [''a'']] [''a'', ''b''])
   \<and> distinct (SetTag [''y''] [''x'', ''x'', ''y''])"
  using tag_calls_keep_distinct[of "[''a'', ''b'']"
    "[CallSetTag [''b'', ''c'', ''c''], CallUnsetTag [''a'', ''x''], CallSetTag [''a'']]"
    "[''y'']" "[''x'', ''x'', ''y'']"]
  by simp


section \<open>Type: the round trip through the packed string\<close>

lemma strings_Index_char:
  "strings_Index s [c] =
     (if c \<in> set s then int (length (takeWhile (\<lambda>x. x \<noteq> c) s)) else -1)"
proof (induction s)
  case Nil
  show ?case by simp
next
  case (Cons a s)
  show ?case
  proof (cases "a = c")
    case True
    then show ?thesis by simp
  next
    case False
    then have "strings_Index (a # s) [c] =
        (let r = strings_Index s [c] in if r < 0 then -1 else r + 1)"
      by auto
    also have "\<dots> = (if c \<in> set s
        then int (length (takeWhile (\<lambda>x. x \<noteq> c) s)) + 1 else -1)"
      by (simp only: Cons.IH Let_def) simp
    finally have E: "strings_Index (a # s) [c] = (if c \<in> set s
        then int (length (takeWhile (\<lambda>x. x \<noteq> c) s)) + 1 else -1)" .
    have R: "(if c \<in> set (a # s) then int (length (takeWhile (\<lambda>x. x \<noteq> c) (a # s))) else -1)
        = (if c \<in> set s then int (length (takeWhile (\<lambda>x. x \<noteq> c) s)) + 1 else -1)"
      using False by simp
    show ?thesis by (simp only: E R)
  qed
qed

lemma Type_GetCategory_eq:
  "Type_GetCategory typ =
     (if CHR '':'' \<in> set typ then takeWhile (\<lambda>x. x \<noteq> CHR '':'') typ else [])"
  by (simp add: Type_GetCategory_def strings_Index_char Let_def takeWhile_eq_take[symmetric])

lemma Type_GetName_eq:
  "Type_GetName typ =
     (if CHR '':'' \<in> set typ then tl (dropWhile (\<lambda>x. x \<noteq> CHR '':'') typ) else typ)"
proof (cases "CHR '':'' \<in> set typ")
  case False
  then show ?thesis by (simp add: Type_GetName_def strings_Index_char Let_def)
next
  case True
  have "drop (Suc (length (takeWhile (\<lambda>x. x \<noteq> CHR '':'') typ))) typ
      = tl (drop (length (takeWhile (\<lambda>x. x \<noteq> CHR '':'') typ)) typ)"
    by (simp add: drop_Suc tl_drop)
  also have "\<dots> = tl (dropWhile (\<lambda>x. x \<noteq> CHR '':'') typ)"
    by (simp only: dropWhile_eq_drop[symmetric])
  finally show ?thesis
    using True by (simp add: Type_GetName_def strings_Index_char Let_def nat_add_distrib)
qed

lemma takeWhile_colon_upto:
  "c \<notin> set pre \<Longrightarrow> takeWhile (\<lambda>x. x \<noteq> c) (pre @ c # rest) = pre"
  by (induction pre) auto

lemma dropWhile_colon_upto:
  "c \<notin> set pre \<Longrightarrow> dropWhile (\<lambda>x. x \<noteq> c) (pre @ c # rest) = c # rest"
  by (induction pre) auto

lemma takeWhile_shorter:
  "c \<in> set xs \<Longrightarrow> length (takeWhile (\<lambda>x. x \<noteq> c) (xs @ ys)) < length xs"
  by (induction xs) auto

lemma tl_dropWhile_shorter:
  "c \<in> set xs \<Longrightarrow> length (tl (dropWhile (\<lambda>x. x \<noteq> c) xs)) < length xs"
proof (induction xs)
  case Nil
  then show ?case by simp
next
  case (Cons a xs)
  show ?case
  proof (cases "a = c")
    case True
    then show ?thesis by simp
  next
    case False
    then show ?thesis using Cons by auto
  qed
qed

text \<open>
  Claim C4, as amended. Storing a generic type with category \<open>c\<close> and name \<open>n\<close> by
  \<open>SetFromType\<close> and reading it back gives \<open>GetCategory() = c\<close> and \<open>GetName() = n\<close>
  exactly when \<open>c\<close> holds no colon and, if \<open>c\<close> is empty, \<open>n\<close> holds no colon either:
  the packed string is split at its first colon.
\<close>

theorem Type_round_trip_iff:
  "(Type_GetCategory (SetFromType t) = rT_Category t \<and> Type_GetName (SetFromType t) = rT_Name t)
   = (CHR '':'' \<notin> set (rT_Category t)
      \<and> (rT_Category t = [] \<longrightarrow> CHR '':'' \<notin> set (rT_Name t)))"
proof (cases "rT_Category t = []")
  case True
  then have st: "SetFromType t = rT_Name t" by (simp add: SetFromType_def)
  show ?thesis
  proof (cases "CHR '':'' \<in> set (rT_Name t)")
    case False
    then show ?thesis using True by (simp add: st Type_GetCategory_eq Type_GetName_eq)
  next
    case c: True
    have "length (Type_GetName (rT_Name t)) < length (rT_Name t)"
      using tl_dropWhile_shorter[OF c] c by (simp add: Type_GetName_eq)
    then have "Type_GetName (rT_Name t) \<noteq> rT_Name t" by auto
    then show ?thesis using True c by (simp add: st)
  qed
next
  case False
  then have st: "SetFromType t = rT_Category t @ CHR '':'' # rT_Name t"
    by (simp add: SetFromType_def)
  show ?thesis
  proof (cases "CHR '':'' \<in> set (rT_Category t)")
    case nc: False
    then show ?thesis using False
      by (simp add: st Type_GetCategory_eq Type_GetName_eq takeWhile_colon_upto
          dropWhile_colon_upto)
  next
    case c: True
    have "length (Type_GetCategory (SetFromType t)) < length (rT_Category t)"
      using takeWhile_shorter[OF c] by (simp add: st Type_GetCategory_eq)
    then have "Type_GetCategory (SetFromType t) \<noteq> rT_Category t" by auto
    then show ?thesis using c by simp
  qed
qed

theorem Type_round_trip_iff_witness:
  "CHR '':'' \<notin> set ''Class''
   \<and> Type_GetCategory (SetFromType \<lparr>rT_Category = ''Class'', rT_Name = ''Part''\<rparr>) = ''Class''
   \<and> Type_GetName (SetFromType \<lparr>rT_Category = ''Class'', rT_Name = ''Part''\<rparr>) = ''Part''"
  using Type_round_trip_iff[of "\<lparr>rT_Category = ''Class'', rT_Name = ''Part''\<rparr>"] by simp

text \<open>
  Claim C4 as stated fails: the type with no category and the name \<open>a:b\<close> is read back
  with category \<open>a\<close> and name \<open>b\<close>.
\<close>

theorem Type_round_trip_colon_counterexample:
  "Type_GetCategory (SetFromType \<lparr>rT_Category = [], rT_Name = ''a:b''\<rparr>) = ''a''
   \<and> Type_GetName (SetFromType \<lparr>rT_Category = [], rT_Name = ''a:b''\<rparr>) = ''b''
   \<and> Type_GetCategory (SetFromType \<lparr>rT_Category = [], rT_Name = ''a:b''\<rparr>)
       \<noteq> rT_Category \<lparr>rT_Category = [], rT_Name = ''a:b''\<rparr>"
  by (simp add: SetFromType_def Type_GetCategory_eq Type_GetName_eq)


section \<open>Security: what \<open>GetSecurity\<close> of a Property returns\<close>

lemma strings_Contains_Nil: "sub \<noteq> [] \<Longrightarrow> \<not> strings_Contains [] sub"
  by (simp add: strings_Contains_def)

lemma is_security_tag_nonempty: "is_security_tag tag \<Longrightarrow> tag \<noteq> []"
  by (auto simp: is_security_tag_def strings_Contains_def)

lemma write_slice_ok:
  assumes "strings_HasPrefix tag write_prefix" and "tag \<noteq> write_prefix"
  shows "\<exists>w. go_slice tag (int (length write_prefix))
            (int (length tag) - int (length write_suffix)) = Inr w"
proof -
  have "length write_prefix \<le> length tag" and "take (length write_prefix) tag = write_prefix"
    using assms(1) by (simp_all add: strings_HasPrefix_def)
  then have "length write_prefix < length tag"
    using assms(2) by (metis le_neq_implies_less take_all order_refl)
  then show ?thesis
    by (simp add: go_slice_def write_suffix_def)
qed

lemma GetSecurity_loop_read_set:
  assumes "rd \<noteq> []" and "\<forall>t\<in>set tags. t \<noteq> write_prefix"
  shows "\<exists>w. GetSecurity_loop tags rd wr = Inr (rd, w)"
  using assms(2)
proof (induction tags arbitrary: wr)
  case Nil
  show ?case by simp
next
  case (Cons tag tags)
  have IH: "\<And>wr. \<exists>w. GetSecurity_loop tags rd wr = Inr (rd, w)"
    using Cons by simp
  show ?case
  proof (cases "wr = [] \<and> strings_HasPrefix tag write_prefix")
    case True
    then obtain w where "go_slice tag (int (length write_prefix))
            (int (length tag) - int (length write_suffix)) = Inr w"
      using write_slice_ok[of tag] Cons.prems by auto
    then show ?thesis using True assms(1) by simp
  next
    case False
    then have "GetSecurity_loop (tag # tags) rd wr = GetSecurity_loop tags rd wr"
      using assms(1) by auto
    then show ?thesis using IH[of wr] by simp
  qed
qed

lemma GetSecurity_loop_write_set:
  assumes "wr \<noteq> []"
  shows "GetSecurity_loop tags [] wr = Inr (getSecurity tags, wr)"
  using assms by (induction tags) auto

lemma GetSecurity_loop_start:
  assumes "\<forall>t\<in>set tags. t \<noteq> write_prefix"
  shows "\<exists>w. GetSecurity_loop tags [] [] = Inr (getSecurity (read_candidates tags), w)"
  using assms
proof (induction tags)
  case Nil
  show ?case by simp
next
  case (Cons tag tags)
  have IH: "\<exists>w. GetSecurity_loop tags [] [] = Inr (getSecurity (read_candidates tags), w)"
    using Cons by simp
  have rest: "\<forall>t\<in>set tags. t \<noteq> write_prefix" using Cons.prems by simp
  show ?case
  proof (cases "strings_HasPrefix tag write_prefix")
    case True
    then obtain w where sl: "go_slice tag (int (length write_prefix))
            (int (length tag) - int (length write_suffix)) = Inr w"
      using write_slice_ok[of tag] Cons.prems by auto
    show ?thesis
    proof (cases "w = []")
      case True
      then show ?thesis using \<open>strings_HasPrefix tag write_prefix\<close> sl IH by simp
    next
      case False
      then show ?thesis
        using \<open>strings_HasPrefix tag write_prefix\<close> sl GetSecurity_loop_write_set[of w tags]
        by simp
    qed
  next
    case np: False
    show ?thesis
    proof (cases "is_security_tag tag")
      case True
      then have "tag \<noteq> []" by (rule is_security_tag_nonempty)
      then obtain w where "GetSecurity_loop tags tag [] = Inr (tag, w)"
        using GetSecurity_loop_read_set[OF _ rest, of tag "[]"] by auto
      then show ?thesis using np True by simp
    next
      case False
      then show ?thesis using np IH by simp
    qed
  qed
qed

lemma getSecurity_find:
  "find is_security_tag tags = Some tag \<Longrightarrow> getSecurity tags = tag"
  by (induction tags) (auto split: if_splits)

text \<open>
  Claim C6, as amended. For every Property none of whose tags is the bare prefix
  \<open>ScriptWriteRestricted: [\<close>, \<open>GetSecurity\<close> returns as the read context the first
  tag that holds the substring \<open>Security\<close> or \<open>security\<close> (these two spellings, no
  other capitalisation) among the tags not taken as the write restriction, whenever
  there is such a tag.
\<close>

theorem Property_GetSecurity_read:
  assumes "\<forall>t\<in>set (Property_Tags member). t \<noteq> write_prefix"
    and "find is_security_tag (read_candidates (Property_Tags member)) = Some tag"
  shows "\<exists>w. Property_GetSecurity member = Inr (tag, w)"
  using GetSecurity_loop_start[OF assms(1)] getSecurity_find[OF assms(2)]
  by (simp add: Property_GetSecurity_def)

theorem Property_GetSecurity_read_witness:
  "list_all (\<lambda>t. t \<noteq> write_prefix)
      [''Deprecated'', ''ScriptWriteRestricted: [PluginSecurity]'', ''RobloxScriptSecurity'']
   \<and> find is_security_tag (read_candidates
        [''Deprecated'', ''ScriptWriteRestricted: [PluginSecurity]'', ''RobloxScriptSecurity''])
      = Some ''RobloxScriptSecurity''
   \<and> (\<exists>w. Property_GetSecurity \<lparr>Property_Name = ''Size'', Property_Class = ''Part'',
        Property_ValueType = ''Vector3'',
        Property_Tags = [''Deprecated'', ''ScriptWriteRestricted: [PluginSecurity]'',
          ''RobloxScriptSecurity'']\<rparr> = Inr (''RobloxScriptSecurity'', w))"
proof -
  let ?tags = "[''Deprecated'', ''ScriptWriteRestricted: [PluginSecurity]'',
    ''RobloxScriptSecurity'']"
  let ?m = "\<lparr>Property_Name = ''Size'', Property_Class = ''Part'',
    Property_ValueType = ''Vector3'', Property_Tags = ?tags\<rparr>"
  have h1: "\<forall>t\<in>set (Property_Tags ?m). t \<noteq> write_prefix"
    by (simp add: write_prefix_def)
  have h2: "find is_security_tag (read_candidates (Property_Tags ?m))
      = Some ''RobloxScriptSecurity''"
    by code_simp
  show ?thesis
    using h2 Property_GetSecurity_read[OF h1 h2] by (simp add: write_prefix_def)
qed

text \<open>
  Claim C6 as stated fails: the tag \<open>SECURITY\<close> holds \<open>security\<close> under
  case-insensitive comparison and is not returned, and a tag with the write prefix that
  holds \<open>Security\<close> is taken as the write context, leaving the read context empty.
\<close>

theorem Property_GetSecurity_misses_counterexample:
  "spec_security_tag ''SECURITY''
   \<and> Property_GetSecurity \<lparr>Property_Name = ''Size'', Property_Class = ''Part'',
        Property_ValueType = ''Vector3'', Property_Tags = [''SECURITY'']\<rparr> = Inr ([], [])
   \<and> spec_security_tag ''ScriptWriteRestricted: [RobloxSecurity]''
   \<and> Property_GetSecurity \<lparr>Property_Name = ''Size'', Property_Class = ''Part'',
        Property_ValueType = ''Vector3'',
        Property_Tags = [''ScriptWriteRestricted: [RobloxSecurity]'']\<rparr>
      = Inr ([], ''RobloxSecurity'')"
  by code_simp

text \<open>
  Claim C9, at the failing input. For the tag list holding the bare prefix
  \<open>ScriptWriteRestricted: [\<close> (24 bytes), the slice \<open>tag[24:23]\<close> is out of bounds and
  \<open>GetSecurity\<close> panics instead of returning.
\<close>

theorem Property_GetSecurity_bare_prefix_panics:
  "Property_GetSecurity \<lparr>Property_Name = ''Size'', Property_Class = ''Part'',
        Property_ValueType = ''Vector3'',
        Property_Tags = [''ScriptWriteRestricted: ['']\<rparr> = Inl SliceBoundsOutOfRange"
  by code_simp

section \<open>The patch engine: what the scans do\<close>

lemma Root_Patch_single: "Root_Patch [action] root = Root_Patch_step action root"
  by (simp add: Root_Patch_def)

lemma Class_Patch_single: "Class_Patch [action] c = Class_Patch_step action c"
  by (simp add: Class_Patch_def)

lemma Enum_Patch_single: "Enum_Patch [action] e = Enum_Patch_step action e"
  by (simp add: Enum_Patch_def)

lemma remove_class_loop_absent:
  "GetClass_loop cs name = None \<Longrightarrow> remove_class_loop name cs = cs"
  by (induction cs) (auto split: if_splits)

lemma patch_class_loop_absent:
  "GetClass_loop cs name = None \<Longrightarrow> patch_class_loop name action cs = cs"
  by (induction cs) (auto split: if_splits)

lemma patch_class_loop_fixed:
  "GetClass_loop cs name = Some c \<Longrightarrow> Class_Patch [action] c = c \<Longrightarrow>
   patch_class_loop name action cs = cs"
  by (induction cs) (auto split: if_splits)

lemma remove_enum_loop_absent:
  "GetEnum_loop es name = None \<Longrightarrow> remove_enum_loop name es = es"
  by (induction es) (auto split: if_splits)

lemma patch_enum_loop_absent:
  "GetEnum_loop es name = None \<Longrightarrow> patch_enum_loop name action es = es"
  by (induction es) (auto split: if_splits)

lemma patch_enum_loop_fixed:
  "GetEnum_loop es name = Some e \<Longrightarrow> Enum_Patch [action] e = e \<Longrightarrow>
   patch_enum_loop name action es = es"
  by (induction es) (auto split: if_splits)

lemma remove_member_loop_absent:
  "GetMember_loop ms name = None \<Longrightarrow> remove_member_loop name ms = ms"
  by (induction ms) (auto split: if_splits)

lemma change_member_loop_absent:
  "GetMember_loop ms name = None \<Longrightarrow> change_member_loop name mtype action ms = ms"
  by (induction ms) (auto split: if_splits)

lemma remove_item_loop_absent:
  "GetEnumItem_loop is name = None \<Longrightarrow> remove_item_loop name is = is"
  by (induction "is") (auto split: if_splits)

lemma change_item_loop_absent:
  "GetEnumItem_loop is name = None \<Longrightarrow> change_item_loop name action is = is"
  by (induction "is") (auto split: if_splits)

lemma change_member_loop_absent_kind:
  "GetMemberOfKind_loop ms name mtype = None \<Longrightarrow>
   change_member_loop name mtype action ms = ms"
  by (induction ms) (auto split: if_splits)

lemma Class_Patch_member_absent:
  assumes "member_target action = Some (aclass, amember)"
    and "GetType action = Remove \<or> GetType action = Change"
    and "GetMemberOfKind c (rM_Name amember) (rM_MemberType amember) = None"
    and "GetType action = Remove \<Longrightarrow> GetMember c (rM_Name amember) = None"
  shows "Class_Patch [action] c = c"
  using assms
  by (auto simp: Class_Patch_single Class_Patch_step_def GetMember_def GetMemberOfKind_def
      remove_member_loop_absent change_member_loop_absent_kind)

lemma Enum_Patch_item_absent:
  assumes "enumitem_target action = Some (aenum, aitem)"
    and "GetType action = Remove \<or> GetType action = Change"
    and "GetEnumItem e (rI_Name aitem) = None"
  shows "Enum_Patch [action] e = e"
  using assms
  by (auto simp: Enum_Patch_single Enum_Patch_step_def GetEnumItem_def
      remove_item_loop_absent change_item_loop_absent)

text \<open>
  Claim C1, at the failing input. The class holds a Function and a Property that are both
  named \<open>Touched\<close>; the Remove action names the Property. The scan compares names only,
  so the member deleted is the Function, the first member of that name, and the Property
  the action names stays.
\<close>

theorem Remove_ignores_member_kind:
  "Class_Patch [member_action Remove (view_Class ''Part'' []) (Some (view_Property ''Touched'' ''bool''))
       [] VOther]
     (ex_Class ''Part'' ''Instance''
        [ex_Function ''Part'' ''Touched'' ''void'', ex_Property ''Part'' ''Touched'' ''bool''])
   = ex_Class ''Part'' ''Instance'' [ex_Property ''Part'' ''Touched'' ''bool'']"
  by (simp add: ex_defs Class_Patch_single Class_Patch_step_def member_target_def)

text \<open>
  Claim C2, at the failing input. The class \<open>Part\<close> holds only the Function
  \<open>Touched\<close>, and the Remove action names the Property \<open>Touched\<close> of \<open>Part\<close>: no
  member of that name and kind is present. \<open>Root.Patch\<close> does not leave the Root as it
  was; it deletes the Function, by the name-only scan of claim C1.
\<close>

theorem Remove_absent_member_changes_Root:
  "GetType (member_action Remove (view_Class ''Part'' [])
       (Some (view_Property ''Touched'' ''bool'')) [] VOther) = Remove
   \<and> target_absent ex_Root_Touched
       (member_action Remove (view_Class ''Part'' [])
          (Some (view_Property ''Touched'' ''bool'')) [] VOther)
   \<and> Root_Patch [member_action Remove (view_Class ''Part'' [])
          (Some (view_Property ''Touched'' ''bool'')) [] VOther] ex_Root_Touched
     = \<lparr>Classes = [ex_Class ''Part'' ''Instance'' []], Enums = []\<rparr>
   \<and> Root_Patch [member_action Remove (view_Class ''Part'' [])
          (Some (view_Property ''Touched'' ''bool'')) [] VOther] ex_Root_Touched
     \<noteq> ex_Root_Touched"
  by (simp add: ex_defs target_absent_def member_target_def GetClass_def GetMemberOfKind_def
      Root_Patch_single Root_Patch_step_def Class_Patch_single Class_Patch_step_def)

text \<open>
  Everywhere else the no-op holds. A Change or Remove action whose named target is
  absent leaves the Root equal in every field, unless it is a member Remove and the
  class holds a member of that name of another kind.
\<close>

lemma Root_Patch_absent_target_unless_namesake:
  assumes ty: "GetType action = Remove \<or> GetType action = Change"
    and ab: "target_absent root action"
    and nn: "\<And>aclass amember c. GetType action = Remove \<Longrightarrow>
      member_target action = Some (aclass, amember) \<Longrightarrow>
      GetClass root (rC_Name aclass) = Some c \<Longrightarrow> GetMember c (rM_Name amember) = None"
  shows "Root_Patch [action] root = root"
proof (cases "member_target action")
  case (Some p)
  obtain aclass amember where p: "p = (aclass, amember)" by (cases p)
  have mt: "member_target action = Some (aclass, amember)" using Some p by simp
  have "patch_class_loop (rC_Name aclass) action (Classes root) = Classes root"
  proof (cases "GetClass root (rC_Name aclass)")
    case None
    then show ?thesis by (simp add: GetClass_def patch_class_loop_absent)
  next
    case (Some c)
    then have k: "GetMemberOfKind c (rM_Name amember) (rM_MemberType amember) = None"
      using ab mt by (simp add: target_absent_def)
    have "GetType action = Remove \<Longrightarrow> GetMember c (rM_Name amember) = None"
      using nn[OF _ mt Some] by simp
    then have "Class_Patch [action] c = c"
      using Class_Patch_member_absent[OF mt ty k] by simp
    then show ?thesis
      using Some by (simp add: GetClass_def patch_class_loop_fixed)
  qed
  then show ?thesis by (simp add: Root_Patch_single Root_Patch_step_def mt)
next
  case nm: None
  show ?thesis
  proof (cases "class_target action")
    case (Some aclass)
    then have "GetClass_loop (Classes root) (rC_Name aclass) = None"
      using ab nm by (simp add: target_absent_def GetClass_def)
    then show ?thesis
      using ty nm Some
      by (auto simp: Root_Patch_single Root_Patch_step_def remove_class_loop_absent
          patch_class_loop_absent)
  next
    case nc: None
    show ?thesis
    proof (cases "enumitem_target action")
      case (Some p)
      obtain aenum aitem where p: "p = (aenum, aitem)" by (cases p)
      have it: "enumitem_target action = Some (aenum, aitem)" using Some p by simp
      have "patch_enum_loop (rE_Name aenum) action (Enums root) = Enums root"
      proof (cases "GetEnum root (rE_Name aenum)")
        case None
        then show ?thesis by (simp add: GetEnum_def patch_enum_loop_absent)
      next
        case (Some e)
        then have "GetEnumItem e (rI_Name aitem) = None"
          using ab nm nc it by (simp add: target_absent_def)
        then have "Enum_Patch [action] e = e"
          using Enum_Patch_item_absent[OF it ty] by simp
        then show ?thesis
          using Some by (simp add: GetEnum_def patch_enum_loop_fixed)
      qed
      then show ?thesis by (simp add: Root_Patch_single Root_Patch_step_def nm nc it)
    next
      case ni: None
      show ?thesis
      proof (cases "enum_target action")
        case (Some aenum)
        then have "GetEnum_loop (Enums root) (rE_Name aenum) = None"
          using ab nm nc ni by (simp add: target_absent_def GetEnum_def)
        then show ?thesis
          using ty nm nc ni Some
          by (auto simp: Root_Patch_single Root_Patch_step_def remove_enum_loop_absent
              patch_enum_loop_absent)
      next
        case None
        then show ?thesis
          using ab nm nc ni by (simp add: target_absent_def)
      qed
    qed
  qed
qed

lemma GetClass_loop_first:
  "\<forall>c\<in>set pre. Class_Name c \<noteq> name \<Longrightarrow> Class_Name c1 = name \<Longrightarrow>
   GetClass_loop (pre @ c1 # rest) name = Some c1"
  by (induction pre) auto

lemma remove_class_loop_first:
  "\<forall>c\<in>set pre. Class_Name c \<noteq> name \<Longrightarrow> Class_Name c1 = name \<Longrightarrow>
   remove_class_loop name (pre @ c1 # rest) = pre @ rest"
  by (induction pre) auto

lemma patch_class_loop_first:
  "\<forall>c\<in>set pre. Class_Name c \<noteq> name \<Longrightarrow> Class_Name c1 = name \<Longrightarrow>
   patch_class_loop name action (pre @ c1 # rest) = pre @ Class_Patch [action] c1 # rest"
  by (induction pre) auto

text \<open>
  Claim C7. In a Root with two classes of one name, the first of them preceded by no
  class of that name, \<open>GetClass(name)\<close> returns the first; a Remove class action on that
  name deletes the first only, the second and all others staying in their order; and a
  Change class action on that name patches the first only.
\<close>

theorem first_class_of_two:
  assumes cl: "Classes root = pre @ c1 # mid @ c2 # post"
    and pre: "\<forall>c\<in>set pre. Class_Name c \<noteq> name"
    and n1: "Class_Name c1 = name" and n2: "Class_Name c2 = name"
    and nm: "member_target action = None"
    and ct: "class_target action = Some aclass" and an: "rC_Name aclass = name"
  shows "GetClass root name = Some c1
    \<and> (GetType action = Remove \<longrightarrow>
         Root_Patch [action] root = root\<lparr>Classes := pre @ mid @ c2 # post\<rparr>)
    \<and> (GetType action = Change \<longrightarrow>
         Root_Patch [action] root
           = root\<lparr>Classes := pre @ Class_Patch [action] c1 # mid @ c2 # post\<rparr>)"
proof -
  have g: "GetClass root name = Some c1"
    using GetClass_loop_first[OF pre n1] by (simp add: GetClass_def cl)
  have r: "remove_class_loop name (Classes root) = pre @ mid @ c2 # post"
    using remove_class_loop_first[OF pre n1] by (simp add: cl)
  have p: "patch_class_loop name action (Classes root)
      = pre @ Class_Patch [action] c1 # mid @ c2 # post"
    using patch_class_loop_first[OF pre n1] by (simp add: cl)
  show ?thesis
    using g r p by (simp add: Root_Patch_single Root_Patch_step_def nm ct an)
qed

theorem first_class_of_two_witness:
  "GetClass ex_Root ''Part'' = Some (ex_Class ''Part'' ''Instance'' [])
   \<and> Root_Patch [class_action Remove (view_Class ''Part'' []) [] VOther] ex_Root
     = \<lparr>Classes = [ex_Class ''Instance'' [] [ex_Property ''Instance'' ''Name'' ''string''],
                   ex_Class ''Model'' ''Instance'' [],
                   ex_Class ''Part'' ''PVInstance'' []],
        Enums = []\<rparr>
   \<and> Root_Patch [class_action Change (view_Class ''Part'' []) ''Superclass'' (VString ''BasePart'')]
        ex_Root
     = \<lparr>Classes = [ex_Class ''Instance'' [] [ex_Property ''Instance'' ''Name'' ''string''],
                   ex_Class ''Part'' ''BasePart'' [],
                   ex_Class ''Model'' ''Instance'' [],
                   ex_Class ''Part'' ''PVInstance'' []],
        Enums = []\<rparr>"
proof -
  let ?pre = "[ex_Class ''Instance'' [] [ex_Property ''Instance'' ''Name'' ''string'']]"
  let ?c1 = "ex_Class ''Part'' ''Instance'' []"
  let ?mid = "[ex_Class ''Model'' ''Instance'' []]"
  let ?c2 = "ex_Class ''Part'' ''PVInstance'' []"
  let ?r = "class_action Remove (view_Class ''Part'' []) [] VOther"
  let ?c = "class_action Change (view_Class ''Part'' []) ''Superclass'' (VString ''BasePart'')"
  have cl: "Classes ex_Root = ?pre @ ?c1 # ?mid @ ?c2 # []" by (simp add: ex_Root_def)
  have pre: "\<forall>c\<in>set ?pre. Class_Name c \<noteq> ''Part''" by (simp add: ex_defs)
  have n1: "Class_Name ?c1 = ''Part''" and n2: "Class_Name ?c2 = ''Part''"
    by (simp_all add: ex_defs)
  have an: "rC_Name (view_Class ''Part'' []) = ''Part''" by (simp add: ex_defs)
  have nmr: "member_target ?r = None" and nmc: "member_target ?c = None"
    by (simp_all add: ex_defs member_target_def)
  have ctr: "class_target ?r = Some (view_Class ''Part'' [])"
    and ctc: "class_target ?c = Some (view_Class ''Part'' [])"
    by (simp_all add: ex_defs class_target_def)
  have tr: "GetType ?r = Remove" and tc: "GetType ?c = Change" by (simp_all add: ex_defs)
  have pc: "Class_Patch [?c] ?c1 = ex_Class ''Part'' ''BasePart'' []"
    by (simp add: ex_defs Class_Patch_single Class_Patch_step_def member_target_def
        class_target_def)
  show ?thesis
    using first_class_of_two[OF cl pre n1 n2 nmr ctr an]
      first_class_of_two[OF cl pre n1 n2 nmc ctc an] tr tc pc
    by (simp add: ex_Root_def)
qed

lemma patch_class_loop_cong:
  "Class_Patch_step action = Class_Patch_step action' \<Longrightarrow>
   patch_class_loop name action cs = patch_class_loop name action' cs"
  by (induction cs) (simp_all add: Class_Patch_single)

lemma copyParameters_bridge: "copyParameters ps = map spec_bridge_parameter ps"
  by (simp add: copyParameters_def copyParameter_def spec_bridge_parameter_def
      SetFromType_def spec_type_string_def Let_def)

lemma copyClass_loop_bridge:
  "copyClass_loop owner ms = concat (map (\<lambda>m. spec_bridge_member owner m (rM_Shape m)) ms)"
proof (induction ms)
  case Nil
  show ?case by simp
next
  case (Cons m ms)
  show ?case
  proof (cases "rM_Shape m")
    case (IsProperty vt)
    then show ?thesis
      using Cons
      by (simp add: copyMember_def copyType_def SetFromType_def spec_type_string_def Let_def)
  next
    case (IsFunction rt ps)
    then show ?thesis
      using Cons
      by (simp add: copyMember_def copyType_def SetFromType_def spec_type_string_def Let_def
          copyParameters_bridge)
  next
    case (IsEvent ps)
    then show ?thesis
      using Cons by (simp add: copyMember_def copyParameters_bridge)
  next
    case IsOther
    then show ?thesis
      using Cons by (simp add: copyMember_def)
  qed
qed

lemma copyClass_bridge: "copyClass c = spec_bridge_class c"
  by (simp add: copyClass_def spec_bridge_class_def copyClass_loop_bridge)

text \<open>
  Claim C10. An action that has the member accessors, whose \<open>GetMember()\<close> returns nil
  and whose \<open>GetClass()\<close> returns a class, is not dropped by \<open>Root.Patch\<close>; it is
  applied by the class branch. An Add appends the bridged copy of the class, as the
  spec describes the bridge. A Remove deletes the first class of the name and keeps the
  others in their order. A Change of \<open>Name\<close>, \<open>Superclass\<close> or \<open>Tags\<close> with a payload
  of the field's type sets that field of the first class of the name and nothing else.
  In every case the result is that of the same action without the member accessor.
\<close>

theorem nil_member_falls_to_class_branch:
  assumes gm: "Action_GetMember action = Some None"
    and gc: "Action_GetClass action = Some (Some aclass)"
  shows "(GetType action = Add \<longrightarrow>
        Root_Patch [action] root = root\<lparr>Classes := Classes root @ [spec_bridge_class aclass]\<rparr>)
    \<and> (Classes root = pre @ c # rest \<and> (\<forall>x\<in>set pre. Class_Name x \<noteq> rC_Name aclass)
         \<and> Class_Name c = rC_Name aclass \<longrightarrow>
        (GetType action = Remove \<longrightarrow>
           Root_Patch [action] root = root\<lparr>Classes := pre @ rest\<rparr>)
      \<and> (GetType action = Change \<and> GetField action = ''Name'' \<and> GetNext action = VString v \<longrightarrow>
           Root_Patch [action] root = root\<lparr>Classes := pre @ c\<lparr>Class_Name := v\<rparr> # rest\<rparr>)
      \<and> (GetType action = Change \<and> GetField action = ''Superclass''
           \<and> GetNext action = VString v \<longrightarrow>
           Root_Patch [action] root = root\<lparr>Classes := pre @ c\<lparr>Class_Superclass := v\<rparr> # rest\<rparr>)
      \<and> (GetType action = Change \<and> GetField action = ''Tags'' \<and> GetNext action = VStrings vs \<longrightarrow>
           Root_Patch [action] root = root\<lparr>Classes := pre @ c\<lparr>Class_Tags := vs\<rparr> # rest\<rparr>))
    \<and> Root_Patch [action] root = Root_Patch [action\<lparr>Action_GetMember := None\<rparr>] root"
proof -
  have nm: "member_target action = None" using gm gc by (simp add: member_target_def)
  have ct: "class_target action = Some aclass" using gc by (simp add: class_target_def)
  have nm': "member_target (action\<lparr>Action_GetMember := None\<rparr>) = None"
    using gc by (simp add: member_target_def)
  have ct': "class_target (action\<lparr>Action_GetMember := None\<rparr>) = Some aclass"
    using gc by (simp add: class_target_def)
  have st: "Class_Patch_step action = Class_Patch_step (action\<lparr>Action_GetMember := None\<rparr>)"
    by (rule ext) (simp add: Class_Patch_step_def nm ct nm' ct')
  have lp: "patch_class_loop (rC_Name aclass) action (Classes root)
      = patch_class_loop (rC_Name aclass) (action\<lparr>Action_GetMember := None\<rparr>) (Classes root)"
    using st by (rule patch_class_loop_cong)
  have same: "Root_Patch [action] root = Root_Patch [action\<lparr>Action_GetMember := None\<rparr>] root"
    by (simp add: Root_Patch_single Root_Patch_step_def nm ct nm' ct' lp
        split: patch_Type.split)
  have add: "GetType action = Add \<longrightarrow>
      Root_Patch [action] root = root\<lparr>Classes := Classes root @ [spec_bridge_class aclass]\<rparr>"
    by (simp add: Root_Patch_single Root_Patch_step_def nm ct copyClass_bridge)
  have found: "Root_Patch [action] root = root\<lparr>Classes := pre @ rest\<rparr>"
    if "Classes root = pre @ c # rest" "\<forall>x\<in>set pre. Class_Name x \<noteq> rC_Name aclass"
      "Class_Name c = rC_Name aclass" "GetType action = Remove"
    using that remove_class_loop_first[of pre "rC_Name aclass" c rest]
    by (simp add: Root_Patch_single Root_Patch_step_def nm ct)
  have change: "Root_Patch [action] root
      = root\<lparr>Classes := pre @ Class_Patch_step action c # rest\<rparr>"
    if "Classes root = pre @ c # rest" "\<forall>x\<in>set pre. Class_Name x \<noteq> rC_Name aclass"
      "Class_Name c = rC_Name aclass" "GetType action = Change"
    using that patch_class_loop_first[of pre "rC_Name aclass" c action rest]
    by (simp add: Root_Patch_single Root_Patch_step_def nm ct Class_Patch_single)
  have f1: "Class_Patch_step action c = c\<lparr>Class_Name := v\<rparr>"
    if "GetType action = Change" "GetField action = ''Name''" "GetNext action = VString v"
    using that by (simp add: Class_Patch_step_def nm ct)
  have f2: "Class_Patch_step action c = c\<lparr>Class_Superclass := v\<rparr>"
    if "GetType action = Change" "GetField action = ''Superclass''"
      "GetNext action = VString v"
    using that by (simp add: Class_Patch_step_def nm ct)
  have f3: "Class_Patch_step action c = c\<lparr>Class_Tags := vs\<rparr>"
    if "GetType action = Change" "GetField action = ''Tags''" "GetNext action = VStrings vs"
    using that by (simp add: Class_Patch_step_def nm ct GetTags_id)
  show ?thesis
    using same add found change f1 f2 f3 by metis
qed

theorem nil_member_falls_to_class_branch_witness:
  "Root_Patch [member_action Add view_Tool None [] VOther] ex_Root
     = ex_Root\<lparr>Classes := Classes ex_Root @
         [\<lparr>Class_Name = ''Tool'', Class_Superclass = ''Instance'',
           Class_Members =
             [ex_Property ''Tool'' ''Grip'' ''CFrame'',
              MCallback \<lparr>Callback_Name = ''OnUse'', Callback_Class = ''Tool'',
                Callback_ReturnType = ''void'',
                Callback_Parameters =
                  [\<lparr>Parameter_Type = ''Class:Player'', Parameter_Name = ''user'',
                    Parameter_HasDefault = True, Parameter_Default = ''nil''\<rparr>],
                Callback_Tags = [''noyield'']\<rparr>,
              MEvent \<lparr>Event_Name = ''Equipped'', Event_Class = ''Tool'',
                Event_Parameters = [], Event_Tags = []\<rparr>],
           Class_Tags = [''Deprecated'']\<rparr>]\<rparr>
   \<and> Root_Patch [member_action Remove (view_Class ''Part'' []) None [] VOther] ex_Root
     = \<lparr>Classes = [ex_Class ''Instance'' [] [ex_Property ''Instance'' ''Name'' ''string''],
                   ex_Class ''Model'' ''Instance'' [],
                   ex_Class ''Part'' ''PVInstance'' []],
        Enums = []\<rparr>
   \<and> Root_Patch [member_action Change (view_Class ''Part'' []) None ''Tags''
          (VStrings [''NotCreatable''])] ex_Root
     = \<lparr>Classes = [ex_Class ''Instance'' [] [ex_Property ''Instance'' ''Name'' ''string''],
                   (ex_Class ''Part'' ''Instance'' [])\<lparr>Class_Tags := [''NotCreatable'']\<rparr>,
                   ex_Class ''Model'' ''Instance'' [],
                   ex_Class ''Part'' ''PVInstance'' []],
        Enums = []\<rparr>"
proof -
  let ?pre = "[ex_Class ''Instance'' [] [ex_Property ''Instance'' ''Name'' ''string'']]"
  let ?c = "ex_Class ''Part'' ''Instance'' []"
  let ?rest = "[ex_Class ''Model'' ''Instance'' [], ex_Class ''Part'' ''PVInstance'' []]"
  let ?add = "member_action Add view_Tool None [] VOther"
  let ?rem = "member_action Remove (view_Class ''Part'' []) None [] VOther"
  let ?chg = "member_action Change (view_Class ''Part'' []) None ''Tags''
    (VStrings [''NotCreatable''])"
  have cl: "Classes ex_Root = ?pre @ ?c # ?rest" by (simp add: ex_Root_def)
  have pre: "\<forall>x\<in>set ?pre. Class_Name x \<noteq> rC_Name (view_Class ''Part'' [])"
    by (simp add: ex_defs)
  have nc: "Class_Name ?c = rC_Name (view_Class ''Part'' [])" by (simp add: ex_defs)
  have a: "Root_Patch [?add] ex_Root
      = ex_Root\<lparr>Classes := Classes ex_Root @ [spec_bridge_class view_Tool]\<rparr>"
    using nil_member_falls_to_class_branch[of ?add view_Tool ex_Root]
    by (simp add: member_action_def)
  have r: "Root_Patch [?rem] ex_Root = ex_Root\<lparr>Classes := ?pre @ ?rest\<rparr>"
    using nil_member_falls_to_class_branch[of ?rem "view_Class ''Part'' []" ex_Root ?pre ?c ?rest]
      cl pre nc
    by (simp add: member_action_def)
  have c: "Root_Patch [?chg] ex_Root
      = ex_Root\<lparr>Classes := ?pre @ ?c\<lparr>Class_Tags := [''NotCreatable'']\<rparr> # ?rest\<rparr>"
    using nil_member_falls_to_class_branch[of ?chg "view_Class ''Part'' []" ex_Root ?pre ?c ?rest
        _ "[''NotCreatable'']"] cl pre nc
    by (simp add: member_action_def)
  have b: "spec_bridge_class view_Tool =
      \<lparr>Class_Name = ''Tool'', Class_Superclass = ''Instance'',
        Class_Members =
          [ex_Property ''Tool'' ''Grip'' ''CFrame'',
           MCallback \<lparr>Callback_Name = ''OnUse'', Callback_Class = ''Tool'',
             Callback_ReturnType = ''void'',
             Callback_Parameters =
               [\<lparr>Parameter_Type = ''Class:Player'', Parameter_Name = ''user'',
                 Parameter_HasDefault = True, Parameter_Default = ''nil''\<rparr>],
             Callback_Tags = [''noyield'']\<rparr>,
           MEvent \<lparr>Event_Name = ''Equipped'', Event_Class = ''Tool'',
             Event_Parameters = [], Event_Tags = []\<rparr>],
        Class_Tags = [''Deprecated'']\<rparr>"
    by (simp add: spec_bridge_class_def view_Tool_def view_Property_def ex_Property_def
        spec_type_string_def spec_bridge_parameter_def)
  show ?thesis
    unfolding a r c b by (simp add: ex_Root_def)
qed

end
